theory Spec2Isabelle
  imports Complex_Main "HOL-Library.AList" "HOL-Library.Char_ord" "HOL-Library.List_Lexorder"
    "HOL-Library.Sublist" "HOL-Library.Multiset"
begin

section \<open>Python values\<close>

text \<open>
  The three scripts (\<^verbatim>\<open>enso_staking_tracker.py\<close>, \<^verbatim>\<open>enso_top_stakers.py\<close>,
  \<^verbatim>\<open>dashboard.py\<close>) are sequential Python. An exception that leaves a function is a
  value \<open>Inl e\<close> of the result; a normal return is \<open>Inr v\<close>.
\<close>

datatype error =
    ValueError          \<comment> \<open>\<^verbatim>\<open>int(s, 16)\<close> or \<^verbatim>\<open>bytes.fromhex(s)\<close> on text that is not hexadecimal\<close>
  | IndexError          \<comment> \<open>\<^verbatim>\<open>log["topics"][i]\<close> with \<open>i\<close> past the end of the list\<close>
  | TypeError           \<comment> \<open>a record access on a value that is not a log record\<close>
  | KeyError            \<comment> \<open>a column of a data frame that has no rows\<close>
  | TransportError      \<comment> \<open>\<^verbatim>\<open>requests.get(...).json()\<close> raised (time-out, connection, bad JSON)\<close>
  | AddressError        \<comment> \<open>\<^verbatim>\<open>Web3.to_checksum_address\<close> refused its argument\<close>
  | DateRangeError      \<comment> \<open>\<^verbatim>\<open>datetime.fromtimestamp\<close> or \<^verbatim>\<open>pd.to_datetime\<close> refused a time stamp\<close>

text \<open>Sequencing of two steps that may raise: the second runs on the first one's value.\<close>

definition bind :: "error + 'a \<Rightarrow> ('a \<Rightarrow> error + 'b) \<Rightarrow> error + 'b" where
  "bind m f = (case m of Inl e \<Rightarrow> Inl e | Inr x \<Rightarrow> f x)"

subsection \<open>\<^verbatim>\<open>int(s, 16)\<close>\<close>

text \<open>
  Strings are lists of characters with code points below 256. Python's \<^verbatim>\<open>int(s, 16)\<close>
  skips white space on both sides, reads one optional sign, one optional prefix
  \<^verbatim>\<open>0x\<close> or \<^verbatim>\<open>0X\<close> (after which a single underscore may stand), and then hexadecimal
  digits, between which single underscores may stand. Anything else is a ValueError.
\<close>

definition is_space :: "char \<Rightarrow> bool" where
  "is_space c = (of_char c \<in> {9, 10, 11, 12, 13, 32, 133, 160 :: nat})"

definition hex_digit :: "char \<Rightarrow> int option" where
  "hex_digit c =
     (let n = (of_char c :: nat) in
      if 48 \<le> n \<and> n \<le> 57 then Some (int n - 48)
      else if 97 \<le> n \<and> n \<le> 102 then Some (int n - 87)
      else if 65 \<le> n \<and> n \<le> 70 then Some (int n - 55)
      else None)"

text \<open>
  \<open>scan_digits acc us cs\<close>: the digits read so far have the value \<open>acc\<close>; \<open>us\<close> says
  that the character just read was an underscore.
\<close>

fun scan_digits :: "int \<Rightarrow> bool \<Rightarrow> string \<Rightarrow> int option" where
  "scan_digits acc us [] = (if us then None else Some acc)"
| "scan_digits acc us (c # cs) =
     (case hex_digit c of
        Some d \<Rightarrow> scan_digits (16 * acc + d) False cs
      | None \<Rightarrow>
          if c = CHR ''_'' then (if us then None else scan_digits acc True cs)
          else if us then None
          else if list_all is_space (c # cs) then Some acc
          else None)"

definition strip_sign :: "string \<Rightarrow> bool \<times> string" where
  "strip_sign s =
     (case s of
        [] \<Rightarrow> (False, [])
      | c # cs \<Rightarrow>
          if c = CHR ''-'' then (True, cs)
          else if c = CHR ''+'' then (False, cs)
          else (False, s))"

definition strip_prefix16 :: "string \<Rightarrow> string" where
  "strip_prefix16 s =
     (case s of
        c # x # r \<Rightarrow>
          if c = CHR ''0'' \<and> (x = CHR ''x'' \<or> x = CHR ''X'')
          then (case r of [] \<Rightarrow> r | u # r' \<Rightarrow> if u = CHR ''_'' then r' else r)
          else s
      | _ \<Rightarrow> s)"

definition py_int16 :: "string \<Rightarrow> error + int" where
  "py_int16 s =
     (let (neg, u) = strip_sign (dropWhile is_space s) in
      case strip_prefix16 u of
        [] \<Rightarrow> Inl ValueError
      | c # cs \<Rightarrow>
          (case hex_digit c of
             None \<Rightarrow> Inl ValueError
           | Some d \<Rightarrow>
               (case scan_digits d False cs of
                  None \<Rightarrow> Inl ValueError
                | Some n \<Rightarrow> Inr (if neg then - n else n))))"

text \<open>The helper of the same body in all three scripts (\<open>h\<close>, \<open>hex_to_int\<close>).\<close>

definition h :: "string \<Rightarrow> error + int" where
  "h val = py_int16 val"

definition hex_to_int :: "string \<Rightarrow> error + int" where
  "hex_to_int s = py_int16 s"

text \<open>
  \<^verbatim>\<open>decode_word(data, index)\<close>: \<^verbatim>\<open>int(data[start : start + 64], 16)\<close> with
  \<^verbatim>\<open>start = 2 + index * 64\<close>. A Python slice never raises: past the end it is shorter, or
  empty.
\<close>

definition decode_word :: "string \<Rightarrow> nat \<Rightarrow> error + int" where
  "decode_word data index = (let start = 2 + index * 64 in py_int16 (take 64 (drop start data)))"

subsection \<open>\<^verbatim>\<open>bytes.fromhex\<close> and \<^verbatim>\<open>rstrip\<close>\<close>

definition is_ascii_space :: "char \<Rightarrow> bool" where
  "is_ascii_space c = (of_char c \<in> {9, 10, 11, 12, 13, 32 :: nat})"

text \<open>
  \<^verbatim>\<open>bytes.fromhex\<close> skips ASCII white space between bytes and wants two hexadecimal
  digits for each byte.
\<close>

fun bytes_fromhex :: "string \<Rightarrow> error + nat list" where
  "bytes_fromhex [] = Inr []"
| "bytes_fromhex [c] = (if is_ascii_space c then Inr [] else Inl ValueError)"
| "bytes_fromhex (c # d # cs) =
     (if is_ascii_space c then bytes_fromhex (d # cs)
      else case (hex_digit c, hex_digit d) of
             (Some a, Some b) \<Rightarrow> bind (bytes_fromhex cs) (\<lambda>bs. Inr (nat (16 * a + b) # bs))
           | _ \<Rightarrow> Inl ValueError)"

definition rstrip_zero :: "nat list \<Rightarrow> nat list" where
  "rstrip_zero bs = rev (dropWhile (\<lambda>b. b = 0) (rev bs))"

text \<open>
  The validator label is \<^verbatim>\<open>bytes.fromhex(topic[2:]).rstrip(b"\x00").decode("utf-8",
  errors="replace")\<close>. Decoding with \<^verbatim>\<open>errors="replace"\<close> never raises and is a function
  of the bytes alone; the label is kept as these bytes.
\<close>

definition validator_label :: "string \<Rightarrow> error + nat list" where
  "validator_label topic = bind (bytes_fromhex (drop 2 topic)) (\<lambda>bs. Inr (rstrip_zero bs))"

subsection \<open>Floating point\<close>

text \<open>
  A Python float is an IEEE binary64. A finite binary64 is kept as the rational number
  it stands for. \<open>truediv a b\<close> (for \<open>b > 0\<close>) is Python's \<^verbatim>\<open>a / b\<close> on integers: the
  number with a 53-bit significand nearest to the quotient, ties going to the even
  significand. With \<open>s\<close> the exponent of the last significand bit, the significand is
  the quotient of \<open>\<bar>a\<bar>\<close> by \<open>b * 2 ^ s\<close>, rounded. The exponent range is not bounded
  here; binary64 leaves it only below \<open>2 ^ -1022\<close> and above \<open>2 ^ 1024\<close>, and a token
  amount is a multiple of \<open>10 ^ -18\<close> read from at most 64 hexadecimal digits.
\<close>

type_synonym float = rat

definition pow2 :: "int \<Rightarrow> rat" where
  "pow2 k = (if 0 \<le> k then 2 ^ nat k else 1 / 2 ^ nat (- k))"

function bit_length :: "int \<Rightarrow> int" where
  "bit_length n = (if n \<le> 0 then 0 else 1 + bit_length (n div 2))"
  by pat_completeness auto
termination
  by (relation "measure nat") auto

declare bit_length.simps [simp del]

definition truediv :: "int \<Rightarrow> int \<Rightarrow> float" where
  "truediv a b =
     (if a = 0 then 0
      else
        let n = \<bar>a\<bar>;
            k = bit_length n - bit_length b;
            e = (if (if 0 \<le> k then b * 2 ^ nat k \<le> n else b \<le> n * 2 ^ nat (- k))
                 then k else k - 1);
            s = e - 52;
            num = (if s < 0 then n * 2 ^ nat (- s) else n);
            den = (if s < 0 then b else b * 2 ^ nat s);
            q = num div den;
            r = num mod den;
            m = (if 2 * r < den then q
                 else if den < 2 * r then q + 1
                 else if even q then q else q + 1)
        in of_int (sgn a * m) * pow2 s)"

text \<open>Rounding of an exact result to binary64, for the float operations.\<close>

definition fl53 :: "rat \<Rightarrow> float" where
  "fl53 q = (let (n, d) = quotient_of q in truediv n d)"

text \<open>\<^verbatim>\<open>x / 10**DECIMALS\<close> with \<^verbatim>\<open>DECIMALS = 18\<close>: true division of two integers.\<close>

definition DECIMALS :: nat where
  "DECIMALS = 18"

definition scaled :: "int \<Rightarrow> float" where
  "scaled x = truediv x (10 ^ DECIMALS)"

text \<open>\<^verbatim>\<open>x + y\<close> and \<^verbatim>\<open>x - y\<close> on floats (\<^verbatim>\<open>+=\<close>, \<^verbatim>\<open>-=\<close>).\<close>

definition fadd :: "float \<Rightarrow> float \<Rightarrow> float" where
  "fadd x y = fl53 (x + y)"

definition fsub :: "float \<Rightarrow> float \<Rightarrow> float" where
  "fsub x y = fl53 (x - y)"

section \<open>The log source client\<close>

text \<open>
  A log record as the source returns it: every field is text. \<open>topics\<close> is the list of
  32-byte words, the first one the event signature; \<open>data\<close> is the payload.
\<close>

record raw_log =
  blockNumber :: string
  timeStamp :: string
  transactionHash :: string
  topics :: "string list"
  data :: string

text \<open>
  The decoded JSON answer to one request. \<^verbatim>\<open>resp.get("status")\<close> is \<open>None\<close> when the key
  is missing. The result is a list of records, or a text (the source puts its error
  message there), or missing.
\<close>

datatype result_field = Records "raw_log list" | Message string | NoResult

record response =
  status :: "string option"
  result :: result_field

text \<open>
  \<^verbatim>\<open>requests.get(...).json()\<close> either raises or gives a response. A source answers the
  \<open>n\<close>-th request of one call of \<open>fetch_logs\<close>, made with \<^verbatim>\<open>fromBlock = from_block\<close>; the
  other parameters of the request (contract, topic, key) are fixed during the call.
\<close>

datatype reply = Raised | Reply response

type_synonym source = "nat \<Rightarrow> int \<Rightarrow> reply"

text \<open>Python's truth value of \<^verbatim>\<open>resp.get("result")\<close>.\<close>

definition truthy :: "result_field \<Rightarrow> bool" where
  "truthy r = (case r of Records logs \<Rightarrow> logs \<noteq> [] | Message s \<Rightarrow> s \<noteq> [] | NoResult \<Rightarrow> False)"

text \<open>
  An element of the list that \<open>fetch_logs\<close> returns: a record, or one character of a text
  result (\<^verbatim>\<open>all_logs.extend(logs)\<close> adds the characters of a text one by one).
\<close>

datatype entry = Entry raw_log | Letter char

text \<open>
  The loop of \<open>fetch_logs\<close>, the same in the three scripts. It need not end, so not
  returning is the value \<open>None\<close>. The pause between requests is not modelled.

  A text result under status \<^verbatim>\<open>"1"\<close> is not a list of records: \<^verbatim>\<open>extend\<close> adds its
  characters to \<open>all_logs\<close>. With fewer than 1000 characters the loop ends there; with
  1000 or more, \<^verbatim>\<open>logs[-1]["blockNumber"]\<close> is an access by name on a character,
  which raises TypeError.
\<close>

partial_function (option) fetch_loop ::
  "source \<Rightarrow> nat \<Rightarrow> int \<Rightarrow> entry list \<Rightarrow> (error + entry list) option" where
  "fetch_loop src n from_block all_logs =
     (case src n from_block of
        Raised \<Rightarrow> Some (Inl TransportError)
      | Reply resp \<Rightarrow>
          if status resp \<noteq> Some ''1'' \<or> \<not> truthy (result resp) then Some (Inr all_logs)
          else
            (case result resp of
               Records logs \<Rightarrow>
                 if 1000 \<le> length logs then
                   (case py_int16 (blockNumber (last logs)) of
                      Inl e \<Rightarrow> Some (Inl e)
                    | Inr b \<Rightarrow> fetch_loop src (Suc n) (b + 1) (all_logs @ map Entry logs))
                 else Some (Inr (all_logs @ map Entry logs))
             | Message s \<Rightarrow>
                 if 1000 \<le> length s then Some (Inl TypeError)
                 else Some (Inr (all_logs @ map Letter s))
             | NoResult \<Rightarrow> Some (Inr all_logs)))"

definition fetch_logs :: "source \<Rightarrow> (error + entry list) option" where
  "fetch_logs src = fetch_loop src 0 0 []"

text \<open>
  A synthetic source for pagination: it holds the records \<open>recs\<close> in block order and
  answers a request with the first 1000 of those whose block is at least
  \<open>from_block\<close>, under status \<^verbatim>\<open>"1"\<close>, or with status \<^verbatim>\<open>"0"\<close> and an empty list when there is
  none. \<open>block_of\<close> is the block number the source reads from a record.
\<close>

definition block_of :: "raw_log \<Rightarrow> int" where
  "block_of r = (case py_int16 (blockNumber r) of Inr b \<Rightarrow> b | Inl e \<Rightarrow> 0)"

definition remaining :: "raw_log list \<Rightarrow> int \<Rightarrow> raw_log list" where
  "remaining recs from_block = filter (\<lambda>r. from_block \<le> block_of r) recs"

definition paged_source :: "raw_log list \<Rightarrow> source" where
  "paged_source recs n from_block =
     (let page = take 1000 (remaining recs from_block) in
      Reply \<lparr>status = Some (if page = [] then ''0'' else ''1''), result = Records page\<rparr>)"

text \<open>No block has records on both sides of a multiple of 1000 in the list.\<close>

definition no_straddle :: "raw_log list \<Rightarrow> bool" where
  "no_straddle recs =
     (\<forall>k. 0 < k \<and> 1000 * k < length recs \<longrightarrow>
          block_of (recs ! (1000 * k - 1)) < block_of (recs ! (1000 * k)))"

text \<open>
  The condition under which the loop ends: a record a response returns has a block
  number that is at least the requested \<open>from_block\<close> and at most \<open>latest\<close>.
\<close>

definition bounded_source :: "source \<Rightarrow> int \<Rightarrow> bool" where
  "bounded_source src latest =
     (\<forall>n fb resp logs r b.
        src n fb = Reply resp \<longrightarrow> result resp = Records logs \<longrightarrow> r \<in> set logs \<longrightarrow>
        py_int16 (blockNumber r) = Inr b \<longrightarrow> fb \<le> b \<and> b \<le> latest)"

text \<open>Sample records and sources: 1001 records of block 16, told apart by their hash.\<close>

definition tx :: "nat \<Rightarrow> raw_log" where
  "tx i = \<lparr>blockNumber = ''0x10'', timeStamp = ''0x0'', transactionHash = replicate i CHR ''f'',
           topics = [], data = ''0x''\<rparr>"

definition one_block_records :: "raw_log list" where
  "one_block_records = map tx [0..<1001]"

text \<open>
  The source's answers when it refuses a request (bad key, rate limit) and when it
  has no record, and sources that give them.
\<close>

definition rate_limited :: response where
  "rate_limited = \<lparr>status = Some ''0'', result = Message ''Max rate limit reached''\<rparr>"

definition no_records :: response where
  "no_records = \<lparr>status = Some ''0'', result = Records []\<rparr>"

definition failing_source :: source where
  "failing_source n from_block = Reply rate_limited"

definition empty_source :: source where
  "empty_source n from_block = Reply no_records"

definition flaky_source :: source where
  "flaky_source n from_block =
     (if n = 0 then Reply \<lparr>status = Some ''1'', result = Records (map tx [0..<1000])\<rparr>
      else Reply rate_limited)"

definition down_source :: source where
  "down_source n from_block = Raised"

text \<open>
  A source that never fails but whose page of 1000 records ends with a record whose
  block number is not a hexadecimal number, and one that answers with a short text
  under status \<^verbatim>\<open>"1"\<close>.
\<close>

definition pending_record :: raw_log where
  "pending_record = \<lparr>blockNumber = ''pending'', timeStamp = ''0x0'', transactionHash = ''0x0'',
                      topics = [], data = ''0x''\<rparr>"

definition pending_source :: source where
  "pending_source n from_block =
     Reply \<lparr>status = Some ''1'', result = Records (map tx [0..<999] @ [pending_record])\<rparr>"

definition text_source :: source where
  "text_source n from_block = Reply \<lparr>status = Some ''1'', result = Message ''OK''\<rparr>"

section \<open>The event decoder\<close>

text \<open>\<^verbatim>\<open>log["topics"][i]\<close>: an index past the end of the list raises IndexError.\<close>

definition topic :: "raw_log \<Rightarrow> nat \<Rightarrow> error + string" where
  "topic lg i = (if i < length (topics lg) then Inr (topics lg ! i) else Inl IndexError)"

text \<open>\<^verbatim>\<open>s[-40:]\<close>: the last 40 characters, or all of \<open>s\<close> when it has fewer.\<close>

definition last40 :: "string \<Rightarrow> string" where
  "last40 s = drop (length s - 40) s"

text \<open>
  A \<^verbatim>\<open>for\<close> loop that builds one row for each log and appends it: the first log whose
  row raises ends the loop with that exception.
\<close>

fun for_each :: "('a \<Rightarrow> error + 'b) \<Rightarrow> 'a list \<Rightarrow> error + 'b list" where
  "for_each f [] = Inr []"
| "for_each f (x # xs) = bind (f x) (\<lambda>y. bind (for_each f xs) (\<lambda>ys. Inr (y # ys)))"

subsection \<open>The rows of \<^verbatim>\<open>enso_staking_tracker.py\<close>\<close>

text \<open>
  A row of the dashboard's flow table has the first five fields; a row of the tracker
  has them all (\<open>row_position_id\<close> and \<open>row_stake\<close> are its keys \<^verbatim>\<open>position_id\<close> and
  \<^verbatim>\<open>stake\<close>).
\<close>

record flow_row =
  block :: int
  timestamp :: int
  event :: string
  amount :: float
  net_flow :: float

record event_row = flow_row +
  tx_hash :: string
  row_position_id :: "int option"
  amount_raw :: int
  stake_raw :: int
  row_stake :: float

text \<open>The body of the loop of \<open>parse_deposits\<close>, in the order Python evaluates it.\<close>

definition deposit_row :: "raw_log \<Rightarrow> error + event_row" where
  "deposit_row lg =
     bind (topic lg 1) (\<lambda>t.
     bind (hex_to_int t) (\<lambda>position_id.
     bind (decode_word (data lg) 0) (\<lambda>funds_added.
     bind (decode_word (data lg) 1) (\<lambda>stake_added.
     bind (hex_to_int (blockNumber lg)) (\<lambda>b.
     bind (hex_to_int (timeStamp lg)) (\<lambda>ts.
       Inr \<lparr>block = b, timestamp = ts, event = ''FundsDeposited'',
            amount = scaled funds_added, net_flow = scaled funds_added,
            tx_hash = transactionHash lg, row_position_id = Some position_id,
            amount_raw = funds_added, stake_raw = stake_added,
            row_stake = scaled stake_added\<rparr>))))))"

definition parse_deposits :: "raw_log list \<Rightarrow> error + event_row list" where
  "parse_deposits logs = for_each deposit_row logs"

definition withdrawal_row :: "raw_log \<Rightarrow> error + event_row" where
  "withdrawal_row lg =
     bind (topic lg 1) (\<lambda>t.
     bind (hex_to_int t) (\<lambda>position_id.
     bind (decode_word (data lg) 0) (\<lambda>funds_removed.
     bind (hex_to_int (blockNumber lg)) (\<lambda>b.
     bind (hex_to_int (timeStamp lg)) (\<lambda>ts.
       Inr \<lparr>block = b, timestamp = ts, event = ''FundsWithdrawn'',
            amount = scaled funds_removed, net_flow = - scaled funds_removed,
            tx_hash = transactionHash lg, row_position_id = Some position_id,
            amount_raw = funds_removed, stake_raw = 0, row_stake = 0\<rparr>)))))"

definition parse_withdrawals :: "raw_log list \<Rightarrow> error + event_row list" where
  "parse_withdrawals logs = for_each withdrawal_row logs"

text \<open>
  \<open>parse_rewards_issued\<close> reads \<^verbatim>\<open>log["topics"][1]\<close> (the validator) and
  \<open>parse_rewards_withdrawn\<close> builds \<^verbatim>\<open>"0x" + log["topics"][1][-40:]\<close>; neither value goes
  into the row, but the access can raise.
\<close>

definition rewards_issued_row :: "raw_log \<Rightarrow> error + event_row" where
  "rewards_issued_row lg =
     bind (topic lg 1) (\<lambda>validator_id.
     bind (decode_word (data lg) 0) (\<lambda>a.
     bind (hex_to_int (blockNumber lg)) (\<lambda>b.
     bind (hex_to_int (timeStamp lg)) (\<lambda>ts.
       Inr \<lparr>block = b, timestamp = ts, event = ''RewardsIssued'',
            amount = scaled a, net_flow = 0,
            tx_hash = transactionHash lg, row_position_id = None,
            amount_raw = a, stake_raw = 0, row_stake = 0\<rparr>))))"

definition parse_rewards_issued :: "raw_log list \<Rightarrow> error + event_row list" where
  "parse_rewards_issued logs = for_each rewards_issued_row logs"

definition rewards_withdrawn_row :: "raw_log \<Rightarrow> error + event_row" where
  "rewards_withdrawn_row lg =
     bind (topic lg 1) (\<lambda>t.
     let to_addr = ''0x'' @ last40 t in
     bind (decode_word (data lg) 0) (\<lambda>a.
     bind (hex_to_int (blockNumber lg)) (\<lambda>b.
     bind (hex_to_int (timeStamp lg)) (\<lambda>ts.
       Inr \<lparr>block = b, timestamp = ts, event = ''RewardsWithdrawn'',
            amount = scaled a, net_flow = 0,
            tx_hash = transactionHash lg, row_position_id = None,
            amount_raw = a, stake_raw = 0, row_stake = 0\<rparr>))))"

definition parse_rewards_withdrawn :: "raw_log list \<Rightarrow> error + event_row list" where
  "parse_rewards_withdrawn logs = for_each rewards_withdrawn_row logs"

section \<open>The state projector\<close>

subsection \<open>The net-flow rows of \<^verbatim>\<open>dashboard.py\<close>\<close>

definition deposit_flow :: "raw_log \<Rightarrow> error + flow_row" where
  "deposit_flow lg =
     bind (decode_word (data lg) 0) (\<lambda>w.
     let funds = scaled w in
     bind (h (blockNumber lg)) (\<lambda>b.
     bind (h (timeStamp lg)) (\<lambda>ts.
       Inr \<lparr>block = b, timestamp = ts, event = ''Deposit'', amount = funds, net_flow = funds\<rparr>)))"

definition withdrawal_flow :: "raw_log \<Rightarrow> error + flow_row" where
  "withdrawal_flow lg =
     bind (decode_word (data lg) 0) (\<lambda>w.
     let funds = scaled w in
     bind (h (blockNumber lg)) (\<lambda>b.
     bind (h (timeStamp lg)) (\<lambda>ts.
       Inr \<lparr>block = b, timestamp = ts, event = ''Withdrawal'', amount = funds,
            net_flow = - funds\<rparr>)))"

definition rewards_issued_flow :: "raw_log \<Rightarrow> error + flow_row" where
  "rewards_issued_flow lg =
     bind (decode_word (data lg) 0) (\<lambda>w.
     let amt = scaled w in
     bind (h (blockNumber lg)) (\<lambda>b.
     bind (h (timeStamp lg)) (\<lambda>ts.
       Inr \<lparr>block = b, timestamp = ts, event = ''Rewards Issued'', amount = amt,
            net_flow = 0\<rparr>)))"

definition rewards_withdrawn_flow :: "raw_log \<Rightarrow> error + flow_row" where
  "rewards_withdrawn_flow lg =
     bind (decode_word (data lg) 0) (\<lambda>w.
     let amt = scaled w in
     bind (h (blockNumber lg)) (\<lambda>b.
     bind (h (timeStamp lg)) (\<lambda>ts.
       Inr \<lparr>block = b, timestamp = ts, event = ''Rewards Withdrawn'', amount = amt,
            net_flow = 0\<rparr>)))"

text \<open>\<open>flow_rows\<close> of \<open>load_data\<close>: the four loops, one after the other.\<close>

definition flow_rows ::
  "raw_log list \<Rightarrow> raw_log list \<Rightarrow> raw_log list \<Rightarrow> raw_log list \<Rightarrow> error + flow_row list" where
  "flow_rows dep_logs wth_logs rew_i_logs rew_w_logs =
     bind (for_each deposit_flow dep_logs) (\<lambda>deps.
     bind (for_each withdrawal_flow wth_logs) (\<lambda>wths.
     bind (for_each rewards_issued_flow rew_i_logs) (\<lambda>ris.
     bind (for_each rewards_withdrawn_flow rew_w_logs) (\<lambda>rws.
       Inr (deps @ wths @ ris @ rws)))))"

text \<open>
  \<^verbatim>\<open>pd.to_datetime(column, unit="s", utc=True)\<close> keeps nanoseconds in 64 bits and refuses
  a number of seconds outside the years 1677 to 2262.
\<close>

definition to_datetime_ok :: "int \<Rightarrow> bool" where
  "to_datetime_ok t = (- 9223372036 \<le> t \<and> t \<le> 9223372036)"

text \<open>
  \<open>flow_df\<close>: a frame without rows has no column \<^verbatim>\<open>timestamp\<close> (KeyError); the column
  \<^verbatim>\<open>datetime\<close> is computed from the time stamps, which can raise; then the rows are
  sorted by block. The order pandas gives to rows of one block is its own; here they keep
  their order. The values of the columns \<^verbatim>\<open>datetime\<close> and \<^verbatim>\<open>cumulative_net_staked\<close> are
  not modelled.
\<close>

definition flow_df :: "flow_row list \<Rightarrow> error + flow_row list" where
  "flow_df rows =
     (if rows = [] then Inl KeyError
      else if \<not> list_all (\<lambda>r. to_datetime_ok (timestamp r)) rows then Inl DateRangeError
      else Inr (sort_key block rows))"

subsection \<open>The positions table\<close>

text \<open>
  A position as both scripts keep it; \<open>validator\<close> holds the bytes of the label. The
  table is a Python dict from the position id: an association list in insertion order,
  where storing under a key that is present keeps the key's place.
  \<^verbatim>\<open>enso_top_stakers.py\<close> also stores \<^verbatim>\<open>expiry_utc\<close> and \<^verbatim>\<open>unlock_remaining\<close>, texts computed
  from \<open>expiry_ts\<close>, which are not modelled, except that computing \<^verbatim>\<open>expiry_utc\<close> can
  raise.
\<close>

record position =
  position_id :: int
  expiry_ts :: int
  validator :: "nat list"
  owner :: "string option"
  net_deposited :: float
  stake :: float

type_synonym positions = "(int \<times> position) list"

text \<open>\<^verbatim>\<open>pid in positions\<close>.\<close>

definition known :: "int \<Rightarrow> positions \<Rightarrow> bool" where
  "known pid positions = (pid \<in> set (map fst positions))"

text \<open>One loop over the logs of one event kind; the first exception ends it.\<close>

fun run :: "(raw_log \<Rightarrow> positions \<Rightarrow> error + positions) \<Rightarrow> raw_log list \<Rightarrow> positions \<Rightarrow>
    error + positions" where
  "run step [] positions = Inr positions"
| "run step (lg # logs) positions = bind (step lg positions) (run step logs)"

text \<open>
  PositionCreated. \<open>new_position\<close> is the dict that \<open>load_data\<close> stores; \<open>main\<close> of
  \<^verbatim>\<open>enso_top_stakers.py\<close> also formats \<^verbatim>\<open>datetime.fromtimestamp(expiry, tz=timezone.utc)\<close>,
  which raises outside the years 1 to 9999.
\<close>

definition new_position :: "raw_log \<Rightarrow> error + position" where
  "new_position lg =
     bind (topic lg 1) (\<lambda>t1.
     bind (h t1) (\<lambda>pid.
     bind (h (take 64 (drop 2 (data lg)))) (\<lambda>expiry.
     bind (topic lg 2) (\<lambda>t2.
     bind (validator_label t2) (\<lambda>v.
       Inr \<lparr>position_id = pid, expiry_ts = expiry, validator = v, owner = None,
            net_deposited = 0, stake = 0\<rparr>)))))"

definition fromtimestamp_ok :: "int \<Rightarrow> bool" where
  "fromtimestamp_ok t = (- 62135596800 \<le> t \<and> t \<le> 253402300799)"

definition new_position_stakers :: "raw_log \<Rightarrow> error + position" where
  "new_position_stakers lg =
     bind (new_position lg) (\<lambda>p.
       if fromtimestamp_ok (expiry_ts p) then Inr p else Inl DateRangeError)"

definition created :: "(raw_log \<Rightarrow> error + position) \<Rightarrow> raw_log \<Rightarrow> positions \<Rightarrow> error + positions" where
  "created mk lg positions =
     bind (mk lg) (\<lambda>p. Inr (AList.update (position_id p) p positions))"

text \<open>
  Transfer. \<open>addr_from_topic\<close> of \<^verbatim>\<open>dashboard.py\<close> is \<^verbatim>\<open>"0x" + topic[-40:]\<close>; the one of
  \<^verbatim>\<open>enso_top_stakers.py\<close> passes this text to \<^verbatim>\<open>Web3.to_checksum_address\<close>, a function of
  the web3 library that is a parameter here: it gives the address in mixed case or
  raises. Both scripts compute the address before they look the position up.
\<close>

definition addr_from_topic_dashboard :: "string \<Rightarrow> error + string" where
  "addr_from_topic_dashboard t = Inr (''0x'' @ last40 t)"

definition addr_from_topic_stakers :: "(string \<Rightarrow> error + string) \<Rightarrow> string \<Rightarrow> error + string" where
  "addr_from_topic_stakers to_checksum_address t = to_checksum_address (''0x'' @ last40 t)"

definition transferred :: "(string \<Rightarrow> error + string) \<Rightarrow> raw_log \<Rightarrow> positions \<Rightarrow> error + positions" where
  "transferred addr_from_topic lg positions =
     bind (topic lg 2) (\<lambda>t2.
     bind (addr_from_topic t2) (\<lambda>to_addr.
     bind (topic lg 3) (\<lambda>t3.
     bind (h t3) (\<lambda>token_id.
       Inr (if known token_id positions
            then AList.map_entry token_id (\<lambda>p. p\<lparr>owner := Some to_addr\<rparr>) positions
            else positions)))))"

text \<open>
  FundsDeposited and FundsWithdrawn. \<open>main\<close> decodes the amounts and then looks the
  position up; \<open>load_data\<close> decodes them only for a position it knows.
\<close>

definition add_funds :: "int \<Rightarrow> int \<Rightarrow> position \<Rightarrow> position" where
  "add_funds funds_added stake_added p =
     p\<lparr>net_deposited := fadd (net_deposited p) (scaled funds_added),
       stake := fadd (stake p) (scaled stake_added)\<rparr>"

definition remove_funds :: "int \<Rightarrow> position \<Rightarrow> position" where
  "remove_funds funds_removed p =
     p\<lparr>net_deposited := fsub (net_deposited p) (scaled funds_removed)\<rparr>"

definition deposited_stakers :: "raw_log \<Rightarrow> positions \<Rightarrow> error + positions" where
  "deposited_stakers lg positions =
     bind (topic lg 1) (\<lambda>t.
     bind (h t) (\<lambda>pid.
     bind (decode_word (data lg) 0) (\<lambda>funds_added.
     bind (decode_word (data lg) 1) (\<lambda>stake_added.
       Inr (if known pid positions
            then AList.map_entry pid (add_funds funds_added stake_added) positions
            else positions)))))"

definition withdrawn_stakers :: "raw_log \<Rightarrow> positions \<Rightarrow> error + positions" where
  "withdrawn_stakers lg positions =
     bind (topic lg 1) (\<lambda>t.
     bind (h t) (\<lambda>pid.
     bind (decode_word (data lg) 0) (\<lambda>funds_removed.
       Inr (if known pid positions
            then AList.map_entry pid (remove_funds funds_removed) positions
            else positions))))"

definition deposited_dashboard :: "raw_log \<Rightarrow> positions \<Rightarrow> error + positions" where
  "deposited_dashboard lg positions =
     bind (topic lg 1) (\<lambda>t.
     bind (h t) (\<lambda>pid.
       if known pid positions
       then bind (decode_word (data lg) 0) (\<lambda>funds_added.
            bind (decode_word (data lg) 1) (\<lambda>stake_added.
              Inr (AList.map_entry pid (add_funds funds_added stake_added) positions)))
       else Inr positions))"

definition withdrawn_dashboard :: "raw_log \<Rightarrow> positions \<Rightarrow> error + positions" where
  "withdrawn_dashboard lg positions =
     bind (topic lg 1) (\<lambda>t.
     bind (h t) (\<lambda>pid.
       if known pid positions
       then bind (decode_word (data lg) 0) (\<lambda>funds_removed.
              Inr (AList.map_entry pid (remove_funds funds_removed) positions))
       else Inr positions))"

text \<open>
  The positions dict of \<open>main\<close> (\<^verbatim>\<open>enso_top_stakers.py\<close>) and of \<open>load_data\<close>
  (\<^verbatim>\<open>dashboard.py\<close>) from the logs of the four event kinds: all PositionCreated logs,
  then all Transfer logs, then all deposits, then all withdrawals.
\<close>

definition positions_stakers ::
  "(string \<Rightarrow> error + string) \<Rightarrow> raw_log list \<Rightarrow> raw_log list \<Rightarrow> raw_log list \<Rightarrow> raw_log list \<Rightarrow>
    error + positions" where
  "positions_stakers to_checksum_address pc_logs tr_logs dep_logs wth_logs =
     bind (run (created new_position_stakers) pc_logs []) (\<lambda>p1.
     bind (run (transferred (addr_from_topic_stakers to_checksum_address)) tr_logs p1) (\<lambda>p2.
     bind (run deposited_stakers dep_logs p2) (\<lambda>p3.
       run withdrawn_stakers wth_logs p3)))"

definition positions_dashboard ::
  "raw_log list \<Rightarrow> raw_log list \<Rightarrow> raw_log list \<Rightarrow> raw_log list \<Rightarrow> error + positions" where
  "positions_dashboard pc_logs tr_logs dep_logs wth_logs =
     bind (run (created new_position) pc_logs []) (\<lambda>p1.
     bind (run (transferred addr_from_topic_dashboard) tr_logs p1) (\<lambda>p2.
     bind (run deposited_dashboard dep_logs p2) (\<lambda>p3.
       run withdrawn_dashboard wth_logs p3)))"

section \<open>The aggregator\<close>

text \<open>
  One row of \<open>owner_df\<close>; \<open>owner_addr\<close> is its column \<^verbatim>\<open>owner\<close>. \<open>rank\<close> is the column
  \<^verbatim>\<open>rank\<close> of \<open>load_data\<close> and the index of \<open>main\<close>.
\<close>

record owner_summary =
  owner_addr :: string
  total_staked :: float
  total_stake_weight :: float
  num_positions :: nat
  earliest_unlock :: int
  latest_unlock :: int
  rank :: nat

text \<open>\<^verbatim>\<open>pos_df[pos_df["net_deposited"] > 0]\<close>.\<close>

definition active_positions :: "position list \<Rightarrow> position list" where
  "active_positions pos_df = filter (\<lambda>p. 0 < net_deposited p) pos_df"

text \<open>
  \<^verbatim>\<open>groupby("owner")\<close> with the defaults of pandas: a row whose key is \<^verbatim>\<open>None\<close> is in no
  group (\<^verbatim>\<open>dropna=True\<close>), the groups come in the order of their keys (\<^verbatim>\<open>sort=True\<close>), and
  the rows of a group keep their order.
\<close>

definition groupby_owner :: "position list \<Rightarrow> (string \<times> position list) list" where
  "groupby_owner df =
     map (\<lambda>a. (a, filter (\<lambda>p. owner p = Some a) df)) (sort (remdups (List.map_filter owner df)))"

text \<open>
  The aggregates of one group. The aggregate \<^verbatim>\<open>"sum"\<close> of a column of binary64 values is
  a binary64 again, which pandas computes with an algorithm of its own; it is the
  parameter \<open>column_sum\<close> of the aggregation, applied to the values of the group in the
  order of their rows.
\<close>

definition agg :: "(float list \<Rightarrow> float) \<Rightarrow> string \<times> position list \<Rightarrow> owner_summary" where
  "agg column_sum g =
     \<lparr>owner_addr = fst g,
      total_staked = column_sum (map net_deposited (snd g)),
      total_stake_weight = column_sum (map stake (snd g)),
      num_positions = length (snd g),
      earliest_unlock = Min (set (map expiry_ts (snd g))),
      latest_unlock = Max (set (map expiry_ts (snd g))),
      rank = 0\<rparr>"

definition with_rank :: "owner_summary list \<Rightarrow> owner_summary list" where
  "with_rank rows = map (\<lambda>(i, r). r\<lparr>rank := Suc i\<rparr>) (enumerate 0 rows)"

text \<open>
  \<open>owner_df\<close>: the groups, aggregated, sorted by \<open>total_staked\<close> from the largest, and
  ranked from 1. Rows with equal totals keep the order of their keys here; pandas does
  not promise an order for them.
\<close>

definition owner_aggregation ::
  "(float list \<Rightarrow> float) \<Rightarrow> position list \<Rightarrow> owner_summary list" where
  "owner_aggregation column_sum df =
     with_rank (sort_key (\<lambda>r. - total_staked r) (map (agg column_sum) (groupby_owner df)))"

text \<open>
  The tables \<open>load_data\<close> returns from the positions dict: \<open>active_df\<close> and \<open>owner_df\<close>.
  A frame built from no position has no column (KeyError on \<^verbatim>\<open>pos_df["expiry_ts"]\<close>), and
  the column \<^verbatim>\<open>expiry_utc\<close> is computed from the expiry of every position, which can
  raise. The columns \<^verbatim>\<open>expiry_utc\<close>, \<^verbatim>\<open>unlock_remaining\<close> and \<^verbatim>\<open>is_locked\<close> and the date
  columns of \<open>owner_df\<close> are not modelled otherwise.
\<close>

definition dashboard_tables ::
  "(float list \<Rightarrow> float) \<Rightarrow> positions \<Rightarrow> error + position list \<times> owner_summary list" where
  "dashboard_tables column_sum positions =
     (if positions = [] then Inl KeyError
      else if \<not> list_all (\<lambda>kp. to_datetime_ok (expiry_ts (snd kp))) positions
      then Inl DateRangeError
      else let active_df = active_positions (map snd positions)
           in Inr (active_df, owner_aggregation column_sum active_df))"

text \<open>
  The tables of \<open>main\<close>: the active positions sorted by \<open>net_deposited\<close> from the largest
  (written to \<^verbatim>\<open>enso_positions.csv\<close>) and \<open>owner_df\<close>.
\<close>

definition stakers_tables ::
  "(float list \<Rightarrow> float) \<Rightarrow> positions \<Rightarrow> error + position list \<times> owner_summary list" where
  "stakers_tables column_sum positions =
     (if positions = [] then Inl KeyError
      else let pos_df = sort_key (\<lambda>p. - net_deposited p) (active_positions (map snd positions))
           in Inr (pos_df, owner_aggregation column_sum pos_df))"

text \<open>
  \<open>load_data\<close> after its six fetches, and \<open>main\<close> of \<^verbatim>\<open>enso_top_stakers.py\<close> after its
  four, as functions of the fetched logs (lists of records: the loops read the fields
  of every element).
\<close>

definition load_data ::
  "(float list \<Rightarrow> float) \<Rightarrow>
    raw_log list \<Rightarrow> raw_log list \<Rightarrow> raw_log list \<Rightarrow> raw_log list \<Rightarrow> raw_log list \<Rightarrow> raw_log list \<Rightarrow>
    error + flow_row list \<times> position list \<times> owner_summary list" where
  "load_data column_sum dep_logs wth_logs rew_i_logs rew_w_logs pc_logs tr_logs =
     bind (flow_rows dep_logs wth_logs rew_i_logs rew_w_logs) (\<lambda>rows.
     bind (flow_df rows) (\<lambda>flow.
     bind (positions_dashboard pc_logs tr_logs dep_logs wth_logs) (\<lambda>positions.
     bind (dashboard_tables column_sum positions) (\<lambda>(active_df, owner_df).
       Inr (flow, active_df, owner_df)))))"

definition main_stakers ::
  "(string \<Rightarrow> error + string) \<Rightarrow> (float list \<Rightarrow> float) \<Rightarrow>
    raw_log list \<Rightarrow> raw_log list \<Rightarrow> raw_log list \<Rightarrow> raw_log list \<Rightarrow>
    error + position list \<times> owner_summary list" where
  "main_stakers to_checksum_address column_sum pc_logs tr_logs dep_logs wth_logs =
     bind (positions_stakers to_checksum_address pc_logs tr_logs dep_logs wth_logs)
       (stakers_tables column_sum)"

text \<open>
  The grouped sum of pandas on binary64 values: the values of a group are added from
  the first row to the last with a running compensation (Kahan summation).
  \<open>kahan sumx compensation vs\<close> is the sum after the values \<open>vs\<close>, from the running sum
  \<open>sumx\<close> and the running \<open>compensation\<close>.
\<close>

fun kahan :: "float \<Rightarrow> float \<Rightarrow> float list \<Rightarrow> float" where
  "kahan sumx compensation [] = sumx"
| "kahan sumx compensation (v # vs) =
     (let y = fsub v compensation;
          t = fadd sumx y
      in kahan t (fsub (fsub t sumx) y) vs)"

definition group_sum :: "float list \<Rightarrow> float" where
  "group_sum vs = kahan 0 0 vs"

section \<open>Sample logs\<close>

text \<open>
  The event signatures (the constants of \<^verbatim>\<open>dashboard.py\<close>) and logs of one position:
  position 1 is created with expiry \<^verbatim>\<open>0x6b49d200\<close> and validator \<^verbatim>\<open>v1\<close>, receives 1000
  tokens, is transferred, and 400 tokens are withdrawn. \<open>word\<close> pads hexadecimal digits
  to a 32-byte word.
\<close>

definition TOPIC_POSITION_CREATED :: string where
  "TOPIC_POSITION_CREATED = ''0x34e49ed13d7eb52832aff120e7482f7b6e7e0328254ca90ee5834a845a87c3b2''"

definition TOPIC_FUNDS_DEPOSITED :: string where
  "TOPIC_FUNDS_DEPOSITED = ''0xed2de103da084463a1b2895568d352fd796dfd1d033c0e8ee9fabe73a6715389''"

definition TOPIC_FUNDS_WITHDRAWN :: string where
  "TOPIC_FUNDS_WITHDRAWN = ''0xd66662c0ded9e58fd31d5e44944bcfd07ffc15e6927ecc1382e7941cb7bd24c4''"

definition TOPIC_REWARDS_ISSUED :: string where
  "TOPIC_REWARDS_ISSUED = ''0x0c9657b4fcab07e36b228d7add08afd28c23c3e216910a78c6f12b89d4f05397''"

definition TOPIC_REWARDS_WITHDRAWN :: string where
  "TOPIC_REWARDS_WITHDRAWN = ''0x8a43c4352486ec339f487f64af78ca5cbf06cd47833f073d3baf3a193e503161''"

definition TOPIC_TRANSFER :: string where
  "TOPIC_TRANSFER = ''0xddf252ad1be2c89b69c2b068fc378daa952ba7f163c4a11628f55a4df523b3ef''"

definition word :: "string \<Rightarrow> string" where
  "word digits = replicate (64 - length digits) CHR ''0'' @ digits"

definition created_1 :: raw_log where
  "created_1 =
     \<lparr>blockNumber = ''0x64'', timeStamp = ''0x65000000'', transactionHash = ''0xa1'',
      topics = [TOPIC_POSITION_CREATED, ''0x'' @ word ''1'', ''0x7631'' @ replicate 60 CHR ''0''],
      data = ''0x'' @ word ''6b49d200''\<rparr>"

definition created_1_again :: raw_log where
  "created_1_again =
     \<lparr>blockNumber = ''0x6e'', timeStamp = ''0x65000100'', transactionHash = ''0xa2'',
      topics = [TOPIC_POSITION_CREATED, ''0x'' @ word ''1'', ''0x7632'' @ replicate 60 CHR ''0''],
      data = ''0x'' @ word ''713fb300''\<rparr>"

definition deposit_1 :: raw_log where
  "deposit_1 =
     \<lparr>blockNumber = ''0x65'', timeStamp = ''0x65000010'', transactionHash = ''0xb1'',
      topics = [TOPIC_FUNDS_DEPOSITED, ''0x'' @ word ''1''],
      data = ''0x'' @ word ''3635c9adc5dea00000'' @ word ''3635c9adc5dea00000''\<rparr>"

definition transfer_1 :: raw_log where
  "transfer_1 =
     \<lparr>blockNumber = ''0x66'', timeStamp = ''0x65000020'', transactionHash = ''0xc1'',
      topics = [TOPIC_TRANSFER, ''0x'' @ word ''0'', ''0x'' @ word ''a11ce'', ''0x'' @ word ''1''],
      data = ''0x''\<rparr>"

definition withdrawal_1 :: raw_log where
  "withdrawal_1 =
     \<lparr>blockNumber = ''0x67'', timeStamp = ''0x65000030'', transactionHash = ''0xd1'',
      topics = [TOPIC_FUNDS_WITHDRAWN, ''0x'' @ word ''1''],
      data = ''0x'' @ word ''15af1d78b58c400000''\<rparr>"

text \<open>Logs for position 99, which is never created.\<close>

definition deposit_99 :: raw_log where
  "deposit_99 =
     \<lparr>blockNumber = ''0x68'', timeStamp = ''0x65000040'', transactionHash = ''0xb2'',
      topics = [TOPIC_FUNDS_DEPOSITED, ''0x'' @ word ''63''],
      data = ''0x'' @ word ''3635c9adc5dea00000'' @ word ''3635c9adc5dea00000''\<rparr>"

definition withdrawal_99 :: raw_log where
  "withdrawal_99 =
     \<lparr>blockNumber = ''0x69'', timeStamp = ''0x65000050'', transactionHash = ''0xd2'',
      topics = [TOPIC_FUNDS_WITHDRAWN, ''0x'' @ word ''63''],
      data = ''0x'' @ word ''15af1d78b58c400000''\<rparr>"

definition transfer_99 :: raw_log where
  "transfer_99 =
     \<lparr>blockNumber = ''0x6a'', timeStamp = ''0x65000060'', transactionHash = ''0xc2'',
      topics = [TOPIC_TRANSFER, ''0x'' @ word ''0'', ''0x'' @ word ''b0b'', ''0x'' @ word ''63''],
      data = ''0x''\<rparr>"

text \<open>
  A PositionCreated log for position 99 in block 107, after the deposit of block 104
  above, and a FundsDeposited log for position 99 whose payload has one word only.
\<close>

definition created_99_late :: raw_log where
  "created_99_late =
     \<lparr>blockNumber = ''0x6b'', timeStamp = ''0x65000070'', transactionHash = ''0xa4'',
      topics = [TOPIC_POSITION_CREATED, ''0x'' @ word ''63'', ''0x7631'' @ replicate 60 CHR ''0''],
      data = ''0x'' @ word ''6b49d200''\<rparr>"

definition short_deposit_99 :: raw_log where
  "short_deposit_99 =
     \<lparr>blockNumber = ''0x6c'', timeStamp = ''0x65000080'', transactionHash = ''0xb3'',
      topics = [TOPIC_FUNDS_DEPOSITED, ''0x'' @ word ''63''],
      data = ''0x'' @ word ''3635c9adc5dea00000''\<rparr>"

text \<open>
  Logs of the four kinds that carry an amount, each with the amount
  1234567890123456789 (\<^verbatim>\<open>0x112210f47de98115\<close>) as the first word of the payload.
\<close>

definition amount_deposit :: raw_log where
  "amount_deposit =
     \<lparr>blockNumber = ''0x70'', timeStamp = ''0x65000100'', transactionHash = ''0xe1'',
      topics = [TOPIC_FUNDS_DEPOSITED, ''0x'' @ word ''1''],
      data = ''0x'' @ word ''112210f47de98115'' @ word ''112210f47de98115''\<rparr>"

definition amount_withdrawal :: raw_log where
  "amount_withdrawal =
     \<lparr>blockNumber = ''0x71'', timeStamp = ''0x65000110'', transactionHash = ''0xe2'',
      topics = [TOPIC_FUNDS_WITHDRAWN, ''0x'' @ word ''1''],
      data = ''0x'' @ word ''112210f47de98115''\<rparr>"

definition amount_rewards_issued :: raw_log where
  "amount_rewards_issued =
     \<lparr>blockNumber = ''0x72'', timeStamp = ''0x65000120'', transactionHash = ''0xe3'',
      topics = [TOPIC_REWARDS_ISSUED, ''0x7631'' @ replicate 60 CHR ''0''],
      data = ''0x'' @ word ''112210f47de98115''\<rparr>"

definition amount_rewards_withdrawn :: raw_log where
  "amount_rewards_withdrawn =
     \<lparr>blockNumber = ''0x73'', timeStamp = ''0x65000130'', transactionHash = ''0xe4'',
      topics = [TOPIC_REWARDS_WITHDRAWN, ''0x'' @ word ''a11ce''],
      data = ''0x'' @ word ''112210f47de98115''\<rparr>"

text \<open>
  Logs whose shape is not that of a deposit (two topics, two words of payload): one
  whose second word is cut after two digits, and one without the position id.
\<close>

definition truncated_deposit :: raw_log where
  "truncated_deposit =
     \<lparr>blockNumber = ''0x74'', timeStamp = ''0x65000140'', transactionHash = ''0xf1'',
      topics = [TOPIC_FUNDS_DEPOSITED, ''0x'' @ word ''1''],
      data = ''0x'' @ word ''de0b6b3a7640000'' @ ''ff''\<rparr>"

definition no_id_deposit :: raw_log where
  "no_id_deposit =
     \<lparr>blockNumber = ''0x75'', timeStamp = ''0x65000150'', transactionHash = ''0xf2'',
      topics = [TOPIC_FUNDS_DEPOSITED],
      data = ''0x'' @ word ''de0b6b3a7640000'' @ word ''de0b6b3a7640000''\<rparr>"

section \<open>A sample positions table\<close>

text \<open>
  Two owners and five positions: three active ones with an owner, an active one without
  an owner (position 4) and one with no balance left (position 5).
\<close>

definition alice :: string where
  "alice = ''0x'' @ replicate 35 CHR ''0'' @ ''a11ce''"

definition bob :: string where
  "bob = ''0x'' @ replicate 37 CHR ''0'' @ ''b0b''"

definition sample_positions :: positions where
  "sample_positions =
     [(1, \<lparr>position_id = 1, expiry_ts = 1800000000, validator = [118, 49], owner = Some alice,
           net_deposited = 600, stake = 1000\<rparr>),
      (2, \<lparr>position_id = 2, expiry_ts = 1900000000, validator = [118, 50], owner = Some bob,
           net_deposited = 50, stake = 50\<rparr>),
      (3, \<lparr>position_id = 3, expiry_ts = 1850000000, validator = [118, 49], owner = Some alice,
           net_deposited = 25, stake = 25\<rparr>),
      (4, \<lparr>position_id = 4, expiry_ts = 1800000000, validator = [118, 50], owner = None,
           net_deposited = 10, stake = 10\<rparr>),
      (5, \<lparr>position_id = 5, expiry_ts = 1900000000, validator = [118, 49], owner = Some bob,
           net_deposited = 0, stake = 75\<rparr>)]"


section \<open>Notions for the properties of the projector\<close>

text \<open>
  The position id of a log as the loops read it, \<^verbatim>\<open>h(log["topics"][1])\<close>, and the id of
  the token of a Transfer log, \<^verbatim>\<open>h(log["topics"][3])\<close>.
\<close>

definition log_id :: "raw_log \<Rightarrow> error + int" where
  "log_id lg = bind (topic lg 1) h"

definition token_id :: "raw_log \<Rightarrow> error + int" where
  "token_id lg = bind (topic lg 3) h"

text \<open>
  A position of \<open>main\<close> (\<^verbatim>\<open>enso_top_stakers.py\<close>) and one of \<open>load_data\<close> agree when they
  have the same id, expiry, validator, net deposit and stake, and either no owner or
  owners of which the first is the checksummed form of the second. Two tables agree
  when they have the same ids in the same order, with positions that agree.
\<close>

definition agree :: "(string \<Rightarrow> error + string) \<Rightarrow> position \<Rightarrow> position \<Rightarrow> bool" where
  "agree to_checksum_address p q =
     (position_id p = position_id q \<and> expiry_ts p = expiry_ts q \<and> validator p = validator q \<and>
      net_deposited p = net_deposited q \<and> stake p = stake q \<and>
      (case (owner p, owner q) of
         (None, None) \<Rightarrow> True
       | (Some a, Some b) \<Rightarrow> to_checksum_address b = Inr a
       | _ \<Rightarrow> False))"

definition tables_agree :: "(string \<Rightarrow> error + string) \<Rightarrow> positions \<Rightarrow> positions \<Rightarrow> bool" where
  "tables_agree to_checksum_address ts td =
     list_all2 (\<lambda>x y. fst x = fst y \<and> agree to_checksum_address (snd x) (snd y)) ts td"

text \<open>
  A stand-in for \<^verbatim>\<open>Web3.to_checksum_address\<close> in examples: it wants \<^verbatim>\<open>0x\<close> and 40
  hexadecimal digits and writes the letters in upper case (the real function chooses
  the case of each letter from a hash of the address).
\<close>

definition upper :: "char \<Rightarrow> char" where
  "upper c = (let n = (of_char c :: nat) in if 97 \<le> n \<and> n \<le> 102 then char_of (n - 32) else c)"

definition sample_checksum :: "string \<Rightarrow> error + string" where
  "sample_checksum a =
     (if length a = 42 \<and> take 2 a = ''0x'' \<and> list_all (\<lambda>c. hex_digit c \<noteq> None) (drop 2 a)
      then Inr (''0x'' @ map upper (drop 2 a)) else Inl AddressError)"

text \<open>
  The logs on which \<open>main\<close> of \<^verbatim>\<open>enso_top_stakers.py\<close> raises nothing of its own: every
  expiry that decodes is in the range of \<^verbatim>\<open>datetime\<close>, every address of a Transfer is
  accepted by \<^verbatim>\<open>to_checksum_address\<close>, and the payload of every deposit and withdrawal
  decodes.
\<close>

definition stakers_accepts ::
  "(string \<Rightarrow> error + string) \<Rightarrow> raw_log list \<Rightarrow> raw_log list \<Rightarrow> raw_log list \<Rightarrow> raw_log list \<Rightarrow>
    bool" where
  "stakers_accepts to_checksum_address pc_logs tr_logs dep_logs wth_logs =
     (list_all (\<lambda>lg. case new_position lg of
                        Inr p \<Rightarrow> fromtimestamp_ok (expiry_ts p) | Inl e \<Rightarrow> True) pc_logs \<and>
      list_all (\<lambda>lg. case topic lg 2 of
                        Inr t \<Rightarrow> \<not> isl (to_checksum_address (''0x'' @ last40 t))
                      | Inl e \<Rightarrow> True) tr_logs \<and>
      list_all (\<lambda>lg. \<not> isl (decode_word (data lg) 0) \<and> \<not> isl (decode_word (data lg) 1)) dep_logs \<and>
      list_all (\<lambda>lg. \<not> isl (decode_word (data lg) 0)) wth_logs)"

text \<open>A PositionCreated log whose expiry is the largest 64-bit number.\<close>

definition created_forever :: raw_log where
  "created_forever =
     \<lparr>blockNumber = ''0x6f'', timeStamp = ''0x65000200'', transactionHash = ''0xa3'',
      topics = [TOPIC_POSITION_CREATED, ''0x'' @ word ''2'', ''0x7631'' @ replicate 60 CHR ''0''],
      data = ''0x'' @ word ''ffffffffffffffff''\<rparr>"

section \<open>Properties\<close>

lemma bind_Inr: "bind (Inr x) f = f x"
  by (simp add: bind_def)

lemma bind_Inl: "bind (Inl e) f = Inl e"
  by (simp add: bind_def)

subsection \<open>The pagination loop, one request at a time\<close>

lemma fetch_loop_Raised:
  "src n fb = Raised \<Longrightarrow> fetch_loop src n fb acc = Some (Inl TransportError)"
  by (subst fetch_loop.simps) simp

lemma fetch_loop_stop:
  "src n fb = Reply resp \<Longrightarrow> status resp \<noteq> Some ''1'' \<or> \<not> truthy (result resp) \<Longrightarrow>
   fetch_loop src n fb acc = Some (Inr acc)"
  by (subst fetch_loop.simps) auto

lemma fetch_loop_short:
  "src n fb = Reply resp \<Longrightarrow> status resp = Some ''1'' \<Longrightarrow> result resp = Records logs \<Longrightarrow>
   length logs < 1000 \<Longrightarrow> fetch_loop src n fb acc = Some (Inr (acc @ map Entry logs))"
  by (subst fetch_loop.simps) (auto simp: truthy_def)

lemma fetch_loop_full:
  "src n fb = Reply resp \<Longrightarrow> status resp = Some ''1'' \<Longrightarrow> result resp = Records logs \<Longrightarrow>
   1000 \<le> length logs \<Longrightarrow> py_int16 (blockNumber (last logs)) = Inr b \<Longrightarrow>
   fetch_loop src n fb acc = fetch_loop src (Suc n) (b + 1) (acc @ map Entry logs)"
  by (subst fetch_loop.simps) (auto simp: truthy_def)

lemma fetch_loop_returns:
  assumes "bounded_source src latest"
  shows "\<exists>res. fetch_loop src n fb acc = Some res"
proof (induction "nat (latest + 1 - fb)" arbitrary: n fb acc rule: less_induct)
  case less
  show ?case
  proof (cases "src n fb")
    case Raised
    then show ?thesis by (simp add: fetch_loop_Raised)
  next
    case (Reply resp)
    show ?thesis
    proof (cases "status resp \<noteq> Some ''1'' \<or> \<not> truthy (result resp)")
      case True
      with Reply show ?thesis
        using fetch_loop_stop[of src n fb resp acc] by simp
    next
      case False
      show ?thesis
      proof (cases "result resp")
        case (Records logs)
        show ?thesis
        proof (cases "1000 \<le> length logs")
          case long: True
          show ?thesis
          proof (cases "py_int16 (blockNumber (last logs))")
            case (Inl e)
            with Reply False Records long show ?thesis
              by (subst fetch_loop.simps) simp
          next
            case (Inr b)
            from long have "logs \<noteq> []" by auto
            then have "last logs \<in> set logs" by simp
            with assms Reply Records Inr have "fb \<le> b \<and> b \<le> latest"
              unfolding bounded_source_def by blast
            then have "nat (latest + 1 - (b + 1)) < nat (latest + 1 - fb)" by simp
            from less[OF this] obtain res where
              "fetch_loop src (Suc n) (b + 1) (acc @ map Entry logs) = Some res" by blast
            with Reply False Records long Inr show ?thesis
              using fetch_loop_full[of src n fb resp logs b acc] by simp
          qed
        next
          case short: False
          with Reply False Records show ?thesis
            using fetch_loop_short[of src n fb resp logs acc] by simp
        qed
      next
        case (Message s)
        with Reply False show ?thesis by (subst fetch_loop.simps) simp
      next
        case NoResult
        with Reply False show ?thesis by (subst fetch_loop.simps) simp
      qed
    qed
  qed
qed

subsection \<open>The synthetic source\<close>

lemma paged_source_bounded:
  assumes "\<forall>r \<in> set recs. block_of r \<le> latest"
  shows "bounded_source (paged_source recs) latest"
  unfolding bounded_source_def
proof (intro allI impI)
  fix n fb resp logs r b
  assume rep: "paged_source recs n fb = Reply resp" and res: "result resp = Records logs"
    and r: "r \<in> set logs" and b: "py_int16 (blockNumber r) = Inr b"
  from rep res have "logs = take 1000 (remaining recs fb)"
    by (auto simp: paged_source_def Let_def)
  with r have "r \<in> set (remaining recs fb)" by (auto dest: in_set_takeD)
  then have "r \<in> set recs" and "fb \<le> block_of r" by (simp_all add: remaining_def)
  moreover have "block_of r = b" using b by (simp add: block_of_def)
  ultimately show "fb \<le> b \<and> b \<le> latest" using assms by auto
qed

lemma int16_0x10: "py_int16 ''0x10'' = Inr 16"
  by code_simp

lemma block_of_tx: "block_of (tx i) = 16"
  by (simp add: block_of_def tx_def int16_0x10)

lemma remaining_one_block: "remaining (map tx js) fb = (if fb \<le> 16 then map tx js else [])"
  by (simp add: remaining_def filter_map o_def block_of_tx)

lemma tx_inj: "tx i = tx j \<longleftrightarrow> i = j"
proof
  assume "tx i = tx j"
  then have "replicate i CHR ''f'' = replicate j CHR ''f''" by (simp add: tx_def)
  then have "length (replicate i CHR ''f'') = length (replicate j CHR ''f'')" by simp
  then show "i = j" by simp
qed simp

subsection \<open>Termination of the pagination loop\<close>

text \<open>
  C10. For every source whose returned records have block numbers at least the
  requested \<open>from_block\<close> and at most the latest block, \<open>fetch_logs\<close> returns: it ends with
  a list of records or with an exception, and does not run forever.
\<close>

theorem fetch_logs_terminates:
  "bounded_source src latest \<Longrightarrow> \<exists>res. fetch_logs src = Some res"
  unfolding fetch_logs_def by (rule fetch_loop_returns)

theorem fetch_logs_terminates_witness:
  "\<exists>res. fetch_logs (paged_source one_block_records) = Some res"
proof -
  have "\<forall>r \<in> set one_block_records. block_of r \<le> 16"
    by (auto simp: one_block_records_def block_of_tx simp del: upt_Suc)
  then have "bounded_source (paged_source one_block_records) 16"
    by (rule paged_source_bounded)
  then show ?thesis by (rule fetch_logs_terminates)
qed

subsection \<open>Failure responses\<close>

text \<open>
  C1, as stated, fails: a response that reports a failure (status \<^verbatim>\<open>"0"\<close> with the
  message of a rate limit) ends \<open>fetch_logs\<close> with the normal result \<open>[]\<close>, the very
  result of a source that has no record. The failure is not raised.
\<close>

theorem failure_returned_as_success:
  "fetch_logs failing_source = Some (Inr []) \<and> fetch_logs empty_source = Some (Inr [])"
proof -
  have "fetch_loop failing_source 0 0 [] = Some (Inr [])"
    using fetch_loop_stop[of failing_source 0 0 rate_limited "[]"]
    by (simp add: failing_source_def rate_limited_def)
  moreover have "fetch_loop empty_source 0 0 [] = Some (Inr [])"
    using fetch_loop_stop[of empty_source 0 0 no_records "[]"]
    by (simp add: empty_source_def no_records_def truthy_def)
  ultimately show ?thesis by (simp add: fetch_logs_def)
qed

text \<open>
  What can raise in \<open>fetch_logs\<close>: the request, and the computation of the next
  cursor after a page of 1000 entries or more.
\<close>

lemma py_int16_error: "py_int16 s = Inl e \<Longrightarrow> e = ValueError"
  by (auto simp: py_int16_def Let_def split: prod.splits list.splits option.splits)

lemma fetch_loop_raises:
  "fetch_loop src n fb acc = Some y \<Longrightarrow> y = Inl e \<Longrightarrow>
   \<exists>k fb'. (src k fb' = Raised \<and> e = TransportError) \<or>
     (\<exists>resp. src k fb' = Reply resp \<and> status resp = Some ''1'' \<and>
        ((\<exists>logs. result resp = Records logs \<and> 1000 \<le> length logs \<and>
            py_int16 (blockNumber (last logs)) = Inl ValueError \<and> e = ValueError) \<or>
         (\<exists>s. result resp = Message s \<and> 1000 \<le> length s \<and> e = TypeError)))"
proof (induction arbitrary: e
    rule: fetch_loop.raw_induct[rotated 1, consumes 1, case_names step])
  case (step loop src n fb acc y)
  show ?case
  proof (cases "src n fb")
    case Raised
    with step(2,3) have "e = TransportError" by simp
    with Raised show ?thesis by blast
  next
    case (Reply resp)
    show ?thesis
    proof (cases "status resp \<noteq> Some ''1'' \<or> \<not> truthy (result resp)")
      case True
      with Reply step(2,3) show ?thesis by auto
    next
      case False
      then have st: "status resp = Some ''1''" by simp
      show ?thesis
      proof (cases "result resp")
        case (Records logs)
        show ?thesis
        proof (cases "1000 \<le> length logs")
          case long: True
          show ?thesis
          proof (cases "py_int16 (blockNumber (last logs))")
            case (Inl e')
            then have "e' = ValueError" by (rule py_int16_error)
            with Reply False Records long Inl step(2,3) st show ?thesis by auto
          next
            case (Inr b)
            with Reply False Records long step(2)
            have "loop src (Suc n) (b + 1) (acc @ map Entry logs) = Some y" by simp
            from step(1)[OF this step(3)] show ?thesis .
          qed
        next
          case False
          with Reply \<open>\<not> (status resp \<noteq> Some ''1'' \<or> \<not> truthy (result resp))\<close> Records step(2,3)
          show ?thesis by simp
        qed
      next
        case (Message s)
        show ?thesis
        proof (cases "1000 \<le> length s")
          case True
          with Reply False Message step(2,3) have "e = TypeError" by simp
          with Reply st Message True show ?thesis by blast
        next
          case short: False
          with Reply False Message step(2,3) show ?thesis by simp
        qed
      next
        case NoResult
        with Reply False step(2,3) show ?thesis by simp
      qed
    qed
  qed
qed

lemma pending_cursor: "py_int16 (blockNumber pending_record) = Inl ValueError"
  by code_simp

lemma fetch_pending: "fetch_loop pending_source 0 0 [] = Some (Inl ValueError)"
proof -
  have "last (map tx [0..<999] @ [pending_record]) = pending_record" by simp
  then show ?thesis
    by (subst fetch_loop.simps) (simp add: pending_source_def truthy_def pending_cursor)
qed

lemma fetch_text: "fetch_loop text_source 0 0 [] = Some (Inr [Letter CHR ''O'', Letter CHR ''K''])"
  by (subst fetch_loop.simps) (simp add: text_source_def truthy_def)

text \<open>
  C1, amended. A response whose status is not \<^verbatim>\<open>"1"\<close>, or whose result is empty or
  missing, ends the pagination, and \<open>fetch_logs\<close> returns the entries accumulated so far
  as its normal result: a failure response and an empty successful one are not told
  apart, and neither is an error. An exception of the request reaches the caller.
  Whenever \<open>fetch_logs\<close> raises, either a request has raised, or a response with status
  \<^verbatim>\<open>"1"\<close> and 1000 entries or more has no next cursor: the block number of its last
  record is not a hexadecimal number (ValueError), or its result is a text (TypeError).
  This is for the responses of the model: a status, and a result that is a list of
  records with text fields, a text, or missing.
\<close>

theorem fetch_loop_ends_on_failure_or_empty:
  "(src n fb = Raised \<longrightarrow> fetch_loop src n fb acc = Some (Inl TransportError)) \<and>
   (src n fb = Reply resp \<and> (status resp \<noteq> Some ''1'' \<or> \<not> truthy (result resp)) \<longrightarrow>
      fetch_loop src n fb acc = Some (Inr acc)) \<and>
   (fetch_loop src n fb acc = Some (Inl e) \<longrightarrow>
      (\<exists>k fb'. (src k fb' = Raised \<and> e = TransportError) \<or>
         (\<exists>resp. src k fb' = Reply resp \<and> status resp = Some ''1'' \<and>
            ((\<exists>logs. result resp = Records logs \<and> 1000 \<le> length logs \<and>
                py_int16 (blockNumber (last logs)) = Inl ValueError \<and> e = ValueError) \<or>
             (\<exists>s. result resp = Message s \<and> 1000 \<le> length s \<and> e = TypeError)))))"
  using fetch_loop_Raised[of src n fb acc] fetch_loop_stop[of src n fb resp acc]
    fetch_loop_raises[of src n fb acc "Inl e" e]
  by blast

theorem fetch_loop_ends_on_failure_or_empty_witness:
  "fetch_loop down_source 0 0 [] = Some (Inl TransportError) \<and>
   fetch_loop flaky_source 1 17 (map Entry (map tx [0..<1000])) =
     Some (Inr (map Entry (map tx [0..<1000]))) \<and>
   fetch_loop pending_source 0 0 [] = Some (Inl ValueError) \<and>
   (\<exists>k fb' logs. pending_source k fb' = Reply \<lparr>status = Some ''1'', result = Records logs\<rparr> \<and>
      1000 \<le> length logs \<and> py_int16 (blockNumber (last logs)) = Inl ValueError)"
proof -
  have "down_source 0 0 = Raised" by (simp add: down_source_def)
  moreover have "flaky_source 1 17 = Reply rate_limited \<and>
      (status rate_limited \<noteq> Some ''1'' \<or> \<not> truthy (result rate_limited))"
    by (simp add: flaky_source_def rate_limited_def)
  ultimately have 1: "fetch_loop down_source 0 0 [] = Some (Inl TransportError) \<and>
      fetch_loop flaky_source 1 17 (map Entry (map tx [0..<1000])) =
        Some (Inr (map Entry (map tx [0..<1000])))"
    using fetch_loop_ends_on_failure_or_empty[of down_source 0 0 "[]"]
      fetch_loop_ends_on_failure_or_empty[of flaky_source 1 17 "map Entry (map tx [0..<1000])"
        rate_limited]
    by blast
  from fetch_pending
    fetch_loop_ends_on_failure_or_empty[of pending_source 0 0 "[]" _ ValueError]
  obtain k fb' where "(pending_source k fb' = Raised \<and> ValueError = TransportError) \<or>
      (\<exists>resp. pending_source k fb' = Reply resp \<and> status resp = Some ''1'' \<and>
         ((\<exists>logs. result resp = Records logs \<and> 1000 \<le> length logs \<and>
             py_int16 (blockNumber (last logs)) = Inl ValueError \<and> ValueError = ValueError) \<or>
          (\<exists>s. result resp = Message s \<and> 1000 \<le> length s \<and> ValueError = TypeError)))"
    by blast
  then obtain resp logs where "pending_source k fb' = Reply resp" "status resp = Some ''1''"
    "result resp = Records logs" "1000 \<le> length logs"
    "py_int16 (blockNumber (last logs)) = Inl ValueError"
    by auto
  then have "\<exists>k fb' logs. pending_source k fb' = Reply \<lparr>status = Some ''1'', result = Records logs\<rparr> \<and>
      1000 \<le> length logs \<and> py_int16 (blockNumber (last logs)) = Inl ValueError"
    by (intro exI[of _ k] exI[of _ fb'] exI[of _ logs]) (simp add: pending_source_def)
  with 1 fetch_pending show ?thesis by blast
qed

subsection \<open>Pagination\<close>

text \<open>
  After a page of 1000 records or more the next request starts at the block of the
  last record plus one; a page of fewer than 1000 records is the last request.
\<close>

lemma pagination_cursor:
  "src n fb = Reply \<lparr>status = Some ''1'', result = Records logs\<rparr> \<Longrightarrow> length logs = 1000 \<Longrightarrow>
   py_int16 (blockNumber (last logs)) = Inr b \<Longrightarrow>
   fetch_loop src n fb acc = fetch_loop src (Suc n) (b + 1) (acc @ map Entry logs)"
  using fetch_loop_full[of src n fb "\<lparr>status = Some ''1'', result = Records logs\<rparr>" logs b acc]
  by simp

lemma pagination_last_page:
  "src n fb = Reply \<lparr>status = Some ''1'', result = Records logs\<rparr> \<Longrightarrow> length logs < 1000 \<Longrightarrow>
   fetch_loop src n fb acc = Some (Inr (acc @ map Entry logs))"
  using fetch_loop_short[of src n fb "\<lparr>status = Some ''1'', result = Records logs\<rparr>" logs acc]
  by simp

lemma no_straddle_drop:
  assumes "no_straddle rs"
  shows "no_straddle (drop 1000 rs)"
  unfolding no_straddle_def
proof (intro allI impI)
  fix k assume k: "0 < k \<and> 1000 * k < length (drop 1000 rs)"
  then have "0 < Suc k \<and> 1000 * Suc k < length rs" by auto
  with assms have "block_of (rs ! (1000 * Suc k - 1)) < block_of (rs ! (1000 * Suc k))"
    unfolding no_straddle_def by blast
  moreover have "1000 * Suc k - 1 = 1000 + (1000 * k - 1)" using k by simp
  moreover have "1000 * Suc k = 1000 + 1000 * k" by simp
  moreover have "1000 * k < length rs - 1000" using k by simp
  then have "1000 \<le> length rs" using k by arith
  then have "drop 1000 rs ! (1000 * k - 1) = rs ! (1000 + (1000 * k - 1))"
    and "drop 1000 rs ! (1000 * k) = rs ! (1000 + 1000 * k)"
    by (simp_all only: nth_drop)
  ultimately show "block_of (drop 1000 rs ! (1000 * k - 1)) < block_of (drop 1000 rs ! (1000 * k))"
    by metis
qed

lemma remaining_step:
  assumes srt: "sorted (map block_of recs)"
    and len: "1000 \<le> length (remaining recs fb)"
    and b: "b = block_of (last (take 1000 (remaining recs fb)))"
  shows "remaining recs (b + 1) = filter (\<lambda>r. b < block_of r) (drop 1000 (remaining recs fb))"
proof -
  let ?R = "remaining recs fb"
  have sR: "sorted (map block_of ?R)"
    using srt unfolding remaining_def by (simp add: sorted_filter)
  have "take 1000 ?R \<noteq> []" using len by auto
  then have lastR: "last (take 1000 ?R) = ?R ! 999"
    using len by (simp add: last_conv_nth)
  have inR: "?R ! 999 \<in> set ?R" using len by simp
  then have "fb \<le> block_of (?R ! 999)" unfolding remaining_def by simp
  then have fb_b: "fb \<le> b" using b lastR by simp
  have "remaining recs (b + 1) = filter (\<lambda>r. b < block_of r) ?R"
    unfolding remaining_def using fb_b by (auto intro!: filter_cong)
  also have "\<dots> = filter (\<lambda>r. b < block_of r) (take 1000 ?R) @ filter (\<lambda>r. b < block_of r) (drop 1000 ?R)"
    by (metis append_take_drop_id filter_append)
  also have "filter (\<lambda>r. b < block_of r) (take 1000 ?R) = []"
  proof -
    have "\<forall>r \<in> set (take 1000 ?R). block_of r \<le> b"
    proof
      fix r assume "r \<in> set (take 1000 ?R)"
      then obtain i where i: "i < 1000" "i < length ?R" "r = ?R ! i"
        by (auto simp: in_set_conv_nth)
      have "map block_of ?R ! i \<le> map block_of ?R ! 999"
        using sR i len by (intro sorted_nth_mono) auto
      then show "block_of r \<le> b" using i len unfolding b lastR by simp
    qed
    then show ?thesis by (auto simp: filter_empty_conv)
  qed
  finally show ?thesis by simp
qed

text \<open>
  On the synthetic source with its records in block order the loop ends, returns a
  subsequence of what the source holds from \<open>fb\<close> on (so no record twice), and returns
  all of it when no block straddles a page boundary.
\<close>

lemma paged_fetch:
  assumes srt: "sorted (map block_of recs)"
    and wf: "\<forall>r \<in> set recs. py_int16 (blockNumber r) = Inr (block_of r)"
  shows "\<exists>out. fetch_loop (paged_source recs) n fb acc = Some (Inr (acc @ map Entry out)) \<and>
           subseq out (remaining recs fb) \<and>
           (no_straddle (remaining recs fb) \<longrightarrow> out = remaining recs fb)"
proof (induction "length (remaining recs fb)" arbitrary: n fb acc rule: less_induct)
  case less
  let ?R = "remaining recs fb"
  let ?src = "paged_source recs"
  let ?page = "take 1000 ?R"
  have rep: "?src n fb = Reply \<lparr>status = Some (if ?page = [] then ''0'' else ''1''), result = Records ?page\<rparr>"
    by (simp add: paged_source_def)
  show ?case
  proof (cases "length ?R < 1000")
    case True
    then have page: "?page = ?R" by simp
    show ?thesis
    proof (cases "?R = []")
      case True
      with rep page have "fetch_loop ?src n fb acc = Some (Inr acc)"
        using fetch_loop_stop[of ?src n fb "\<lparr>status = Some ''0'', result = Records []\<rparr>" acc]
        by simp
      with True show ?thesis by (intro exI[of _ "[]"]) simp
    next
      case False
      with rep page \<open>length ?R < 1000\<close>
      have "fetch_loop ?src n fb acc = Some (Inr (acc @ map Entry ?R))"
        using fetch_loop_short[of ?src n fb "\<lparr>status = Some ''1'', result = Records ?R\<rparr>" ?R acc]
        by simp
      then show ?thesis by (intro exI[of _ ?R]) simp
    qed
  next
    case False
    then have len: "1000 \<le> length ?R" by simp
    then have ne: "?page \<noteq> []" by auto
    define b where "b = block_of (last ?page)"
    have "last ?page \<in> set ?page" using ne by simp
    then have "last ?page \<in> set recs"
      unfolding remaining_def by (auto dest: in_set_takeD)
    with wf have parse: "py_int16 (blockNumber (last ?page)) = Inr b" unfolding b_def by simp
    have step: "fetch_loop ?src n fb acc =
        fetch_loop ?src (Suc n) (b + 1) (acc @ map Entry ?page)"
      using len ne rep parse
        fetch_loop_full[of ?src n fb "\<lparr>status = Some ''1'', result = Records ?page\<rparr>" ?page b acc]
      by simp
    have R': "remaining recs (b + 1) = filter (\<lambda>r. b < block_of r) (drop 1000 ?R)"
      using remaining_step[OF srt len b_def] .
    have "length (remaining recs (b + 1)) \<le> length (drop 1000 ?R)"
      unfolding R' by (rule length_filter_le)
    also have "\<dots> < length ?R" using len by simp
    finally obtain out where out:
      "fetch_loop ?src (Suc n) (b + 1) (acc @ map Entry ?page) =
         Some (Inr ((acc @ map Entry ?page) @ map Entry out))"
      "subseq out (remaining recs (b + 1))"
      "no_straddle (remaining recs (b + 1)) \<longrightarrow> out = remaining recs (b + 1)"
      using less by blast
    have sub: "subseq (?page @ out) ?R"
    proof -
      have "subseq out (drop 1000 ?R)"
        using out(2) unfolding R' by (meson subseq_filter_left subseq_order.trans)
      then have "subseq (?page @ out) (?page @ drop 1000 ?R)"
        by (intro list_emb_append_mono) simp_all
      then show ?thesis by simp
    qed
    have full: "?page @ out = ?R" if ns: "no_straddle ?R"
    proof -
      have sR: "sorted (map block_of ?R)"
        using srt unfolding remaining_def by (simp add: sorted_filter)
      have lastR: "last ?page = ?R ! 999"
        using len ne by (simp add: last_conv_nth)
      have all_gt: "\<forall>r \<in> set (drop 1000 ?R). b < block_of r"
      proof
        fix r assume "r \<in> set (drop 1000 ?R)"
        then obtain i where i: "i < length (drop 1000 ?R)" "r = drop 1000 ?R ! i"
          by (auto simp: in_set_conv_nth)
        then have i': "1000 + i < length ?R" by simp
        then have "1000 * 1 < length ?R" by simp
        with ns have "block_of (?R ! (1000 * 1 - 1)) < block_of (?R ! (1000 * 1))"
          unfolding no_straddle_def by blast
        then have "b < block_of (?R ! 1000)" unfolding b_def lastR by simp
        also have "map block_of ?R ! 1000 \<le> map block_of ?R ! (1000 + i)"
          using sR i' by (intro sorted_nth_mono) auto
        then have "block_of (?R ! 1000) \<le> block_of (?R ! (1000 + i))" using i' by simp
        finally show "b < block_of r" using i i' by (simp add: nth_drop)
      qed
      then have R'': "remaining recs (b + 1) = drop 1000 ?R"
        unfolding R' by (simp add: filter_id_conv)
      have "no_straddle (drop 1000 ?R)" using ns by (rule no_straddle_drop)
      with out(3) R'' have "out = drop 1000 ?R" by simp
      then show ?thesis by simp
    qed
    from step out(1) sub full show ?thesis
      by (intro exI[of _ "?page @ out"]) simp
  qed
qed

lemma paged_fetch_complete:
  assumes "sorted (map block_of recs)"
    and "\<forall>r \<in> set recs. py_int16 (blockNumber r) = Inr (block_of r) \<and> 0 \<le> block_of r"
  shows "\<exists>out. fetch_logs (paged_source recs) = Some (Inr (map Entry out)) \<and> subseq out recs \<and>
           (no_straddle recs \<longrightarrow> out = recs)"
proof -
  have "remaining recs 0 = recs" using assms(2) by (simp add: remaining_def filter_id_conv)
  with paged_fetch[of recs 0 0 "[]"] assms show ?thesis
    by (auto simp: fetch_logs_def)
qed

text \<open>
  C2. The claim holds for the cursor and for the last page (lemmas
  \<open>pagination_cursor\<close>, \<open>pagination_last_page\<close>), and no record is returned twice
  (\<open>paged_fetch_complete\<close>). It fails for "none is skipped": a source that holds 1001
  records of one block gives the first 1000, the next request starts one block later,
  and the last record is never fetched.
\<close>

theorem fetch_skips_straddled_record:
  "fetch_logs (paged_source one_block_records) = Some (Inr (map Entry (map tx [0..<1000]))) \<and>
   tx 1000 \<in> set one_block_records \<and> tx 1000 \<notin> set (map tx [0..<1000])"
proof -
  let ?src = "paged_source one_block_records"
  let ?page = "map tx [0..<1000]"
  have t: "take 1000 (map tx [0..<1001]) = ?page"
    by (simp add: take_map)
  have r0: "?src 0 0 = Reply \<lparr>status = Some ''1'', result = Records ?page\<rparr>"
    by (simp add: paged_source_def one_block_records_def remaining_one_block t del: upt_Suc)
  have l: "last ?page = tx 999"
    by (simp add: last_map)
  have p: "py_int16 (blockNumber (last ?page)) = Inr 16"
    unfolding l by (simp add: tx_def int16_0x10)
  have s1: "fetch_loop ?src 0 0 [] = fetch_loop ?src (Suc 0) (16 + 1) ([] @ map Entry ?page)"
    using fetch_loop_full[of ?src 0 0 _ ?page 16 "[]", OF r0 _ _ _ p] by simp
  have r1: "?src (Suc 0) (16 + 1) = Reply \<lparr>status = Some ''0'', result = Records []\<rparr>"
    by (simp add: paged_source_def one_block_records_def remaining_one_block)
  have s2: "fetch_loop ?src (Suc 0) (16 + 1) ([] @ map Entry ?page) =
      Some (Inr ([] @ map Entry ?page))"
    using fetch_loop_stop[of ?src "Suc 0" "16 + 1" _ "[] @ map Entry ?page", OF r1] by simp
  have "fetch_logs ?src = Some (Inr (map Entry ?page))"
    unfolding fetch_logs_def s1 s2 by simp
  moreover have "tx 1000 \<in> set one_block_records \<and> tx 1000 \<notin> set ?page"
    by (auto simp: one_block_records_def tx_inj simp del: upt_Suc)
  ultimately show ?thesis by simp
qed

subsection \<open>The division is correctly rounded\<close>

lemma bit_length_unfold: "0 < n \<Longrightarrow> bit_length n = 1 + bit_length (n div 2)"
  by (subst bit_length.simps) simp

lemma bit_length_0: "n \<le> 0 \<Longrightarrow> bit_length n = 0"
  by (subst bit_length.simps) simp

lemma bit_length_bounds:
  "0 < n \<Longrightarrow> 0 < bit_length n \<and> 2 ^ nat (bit_length n - 1) \<le> n \<and> n < 2 ^ nat (bit_length n)"
proof (induction n rule: bit_length.induct)
  case (1 n)
  show ?case
  proof (cases "n = 1")
    case True
    have "bit_length 1 = 1" by (simp add: bit_length_unfold bit_length_0)
    with True show ?thesis by simp
  next
    case False
    with "1.prems" have h: "0 < n div 2" by simp
    let ?L = "bit_length (n div 2)"
    have "\<not> n \<le> 0" using "1.prems" by simp
    from "1.IH"[OF this h] have L: "0 < ?L" and lo: "2 ^ nat (?L - 1) \<le> n div 2"
      and hi: "n div 2 < 2 ^ nat ?L" by blast+
    have bl: "bit_length n = 1 + ?L" using "1.prems" by (rule bit_length_unfold)
    have e1: "nat (1 + ?L - 1) = Suc (nat (?L - 1))" using L by linarith
    have e2: "nat (1 + ?L) = Suc (nat ?L)" using L by linarith
    have "(2::int) * 2 ^ nat (?L - 1) \<le> 2 * (n div 2)" using lo by linarith
    also have "\<dots> \<le> n" by presburger
    finally have a: "2 ^ nat (bit_length n - 1) \<le> n" unfolding bl e1 power_Suc .
    have "n < 2 * (n div 2) + 2" by presburger
    also have "\<dots> \<le> 2 * (2 ^ nat ?L - 1) + 2"
    proof -
      have "\<And>m X :: int. m < X \<Longrightarrow> 2 * m + 2 \<le> 2 * (X - 1) + 2" by simp
      from this[OF hi] show ?thesis .
    qed
    also have "\<dots> = 2 ^ Suc (nat ?L)" by simp
    finally have b: "n < 2 ^ nat (bit_length n)" unfolding bl e2 .
    from a b L show ?thesis unfolding bl by linarith
  qed
qed

lemma pow2_powi: "pow2 k = 2 powi k"
  by (simp add: pow2_def power_int_def field_simps)

lemma pow2_pos: "0 < pow2 k"
  by (simp add: pow2_powi)

lemma pow2_add: "pow2 (i + j) = pow2 i * pow2 j"
  by (simp add: pow2_powi power_int_add)

lemma bit_length_pow2:
  assumes "0 < n"
  shows "pow2 (bit_length n - 1) \<le> of_int n \<and> of_int n < pow2 (bit_length n)"
proof -
  from bit_length_bounds[OF assms] have L: "0 < bit_length n"
    and lo: "2 ^ nat (bit_length n - 1) \<le> n" and hi: "n < 2 ^ nat (bit_length n)" by simp_all
  have "(of_int (2 ^ nat (bit_length n - 1)) :: rat) \<le> of_int n"
    using lo by (simp only: of_int_le_iff)
  moreover have "(of_int n :: rat) < of_int (2 ^ nat (bit_length n))"
    using hi by (simp only: of_int_less_iff)
  ultimately show ?thesis using L by (simp add: pow2_def)
qed

text \<open>The exponent that \<open>truediv\<close> computes is the one of the quotient.\<close>

lemma quotient_exponent:
  assumes n: "0 < n" and b: "0 < b"
    and k: "k = bit_length n - bit_length b"
    and e: "e = (if (if 0 \<le> k then b * 2 ^ nat k \<le> n else b \<le> n * 2 ^ nat (- k))
                 then k else k - 1)"
  shows "pow2 e \<le> of_int n / of_int b \<and> of_int n / of_int b < pow2 (e + 1)"
proof -
  let ?x = "of_int n / of_int b :: rat"
  have bpos: "(0::rat) < of_int b" using b by simp
  note N = bit_length_pow2[OF n] and B = bit_length_pow2[OF b]
  have up: "?x < pow2 (k + 1)"
  proof -
    have "pow2 (bit_length n) = pow2 (k + 1) * pow2 (bit_length b - 1)"
      unfolding k pow2_add[symmetric] by simp
    also have "\<dots> \<le> pow2 (k + 1) * of_int b"
      using B pow2_pos[of "k + 1"] by (simp add: mult_left_mono)
    finally have "of_int n < pow2 (k + 1) * of_int b" using N by simp
    then show ?thesis using bpos by (simp add: pos_divide_less_eq)
  qed
  have low: "pow2 (k - 1) < ?x"
  proof -
    have "pow2 (k - 1) * of_int b < pow2 (k - 1) * pow2 (bit_length b)"
      using B pow2_pos[of "k - 1"] by (simp add: mult_strict_left_mono)
    also have "\<dots> = pow2 (bit_length n - 1)"
      unfolding k pow2_add[symmetric] by simp
    finally have "pow2 (k - 1) * of_int b < of_int n" using N by simp
    then show ?thesis using bpos by (simp add: pos_less_divide_eq)
  qed
  have test: "(if 0 \<le> k then b * 2 ^ nat k \<le> n else b \<le> n * 2 ^ nat (- k)) \<longleftrightarrow> pow2 k \<le> ?x"
  proof (cases "0 \<le> k")
    case True
    have "b * 2 ^ nat k \<le> n \<longleftrightarrow> (of_int (b * 2 ^ nat k) :: rat) \<le> of_int n"
      by (simp only: of_int_le_iff)
    also have "\<dots> \<longleftrightarrow> pow2 k * of_int b \<le> of_int n"
      using True by (simp add: pow2_def mult.commute)
    also have "\<dots> \<longleftrightarrow> pow2 k \<le> ?x" using bpos by (simp add: pos_le_divide_eq)
    finally show ?thesis using True by simp
  next
    case False
    have p: "(0::rat) < 2 ^ nat (- k)" by simp
    have "b \<le> n * 2 ^ nat (- k) \<longleftrightarrow> (of_int b :: rat) \<le> of_int (n * 2 ^ nat (- k))"
      by (simp only: of_int_le_iff)
    also have "\<dots> \<longleftrightarrow> (of_int b :: rat) \<le> of_int n * 2 ^ nat (- k)" by simp
    also have "\<dots> \<longleftrightarrow> (of_int b :: rat) / 2 ^ nat (- k) \<le> of_int n"
      using p by (simp add: pos_divide_le_eq)
    also have "\<dots> \<longleftrightarrow> pow2 k * of_int b \<le> of_int n"
      using False by (simp add: pow2_def)
    also have "\<dots> \<longleftrightarrow> pow2 k \<le> ?x" using bpos by (simp add: pos_le_divide_eq)
    finally show ?thesis using False by simp
  qed
  show ?thesis
  proof (cases "pow2 k \<le> ?x")
    case True
    with test e have "e = k" by simp
    with True up show ?thesis by simp
  next
    case False
    with test e have "e = k - 1" by simp
    with False low show ?thesis by simp
  qed
qed

lemma scaled_ratio:
  assumes "0 < b"
    and "num = (if s < 0 then n * 2 ^ nat (- s) else n)"
    and "den = (if s < 0 then b else b * 2 ^ nat s)"
  shows "0 < den \<and> (of_int num / of_int den :: rat) = of_int n / of_int b / pow2 s"
  using assms by (auto simp: pow2_def)

text \<open>The significand is an integer nearest to the scaled quotient.\<close>

lemma nearest_integer:
  assumes "0 < den"
    and "q = num div den" and "r = num mod den"
    and "m = (if 2 * r < den then q else if den < 2 * r then q + 1
              else if even q then q else q + 1)"
  shows "\<bar>of_int m - (of_int num / of_int den :: rat)\<bar> \<le> 1 / 2"
proof -
  have dpos: "(0::rat) < of_int den" using assms(1) by simp
  have r: "0 \<le> r" "r < den" using assms(1,3) by simp_all
  have "num = q * den + r" using assms(2,3) by simp
  then have "(of_int num :: rat) = of_int q * of_int den + of_int r"
    by (metis of_int_add of_int_mult)
  then have y: "(of_int num / of_int den :: rat) = of_int q + of_int r / of_int den"
    using dpos by (simp add: field_simps)
  have r0: "(0::rat) \<le> of_int r / of_int den" using r dpos by simp
  have r1: "(of_int r / of_int den :: rat) < 1" using r dpos by simp
  consider "2 * r < den" | "den < 2 * r" | "2 * r = den" by linarith
  then show ?thesis
  proof cases
    case 1
    then have "(of_int (2 * r) :: rat) < of_int den" by (simp only: of_int_less_iff)
    then have "(of_int r / of_int den :: rat) < 1 / 2" using dpos by (simp add: field_simps)
    moreover have "m = q" using 1 assms(4) by simp
    ultimately show ?thesis using y r0 by simp
  next
    case 2
    then have "(of_int den :: rat) < of_int (2 * r)" by (simp only: of_int_less_iff)
    then have "(1 / 2 :: rat) < of_int r / of_int den" using dpos by (simp add: field_simps)
    moreover have "m = q + 1" using 2 assms(4) by simp
    ultimately show ?thesis using y r1 by simp
  next
    case 3
    then have "(of_int (2 * r) :: rat) = of_int den" by simp
    then have h: "(of_int r / of_int den :: rat) = 1 / 2" using dpos by (simp add: field_simps)
    have "m = q \<or> m = q + 1" using 3 assms(4) by simp
    then show ?thesis using y h by auto
  qed
qed

text \<open>
  For \<open>b > 0\<close> and \<open>a \<noteq> 0\<close>, \<open>truediv a b\<close> has a significand \<open>m\<close> of at most 53 bits
  that is an integer nearest to the quotient scaled by the power of two, and so it
  differs from the quotient by at most half a unit in the last place.
\<close>

lemma truediv_nearest:
  assumes b: "0 < b" and a: "a \<noteq> 0"
  shows "\<exists>m s. truediv a b = of_int (sgn a * m) * pow2 s \<and> 2 ^ 52 \<le> m \<and> m \<le> 2 ^ 53 \<and>
           \<bar>of_int m - \<bar>of_int a / of_int b\<bar> / pow2 s\<bar> \<le> 1 / 2 \<and>
           pow2 (s + 52) \<le> \<bar>of_int a / of_int b\<bar>"
proof -
  define n where "n = \<bar>a\<bar>"
  define k where "k = bit_length n - bit_length b"
  define e where "e = (if (if 0 \<le> k then b * 2 ^ nat k \<le> n else b \<le> n * 2 ^ nat (- k))
      then k else k - 1)"
  define s where "s = e - 52"
  define num where "num = (if s < 0 then n * 2 ^ nat (- s) else n)"
  define den where "den = (if s < 0 then b else b * 2 ^ nat s)"
  define q where "q = num div den"
  define r where "r = num mod den"
  define m where "m = (if 2 * r < den then q else if den < 2 * r then q + 1
      else if even q then q else q + 1)"
  let ?x = "of_int n / of_int b :: rat"
  have n: "0 < n" using a by (simp add: n_def)
  have res: "truediv a b = of_int (sgn a * m) * pow2 s"
    using a unfolding truediv_def Let_def n_def k_def e_def s_def num_def den_def q_def r_def m_def
    by simp
  have x: "\<bar>of_int a / of_int b :: rat\<bar> = ?x" using b by (simp add: n_def abs_divide)
  from quotient_exponent[OF n b k_def e_def]
  have ex: "pow2 e \<le> ?x" "?x < pow2 (e + 1)" by simp_all
  from scaled_ratio[OF b num_def den_def]
  have den: "0 < den" and y: "(of_int num / of_int den :: rat) = ?x / pow2 s" by simp_all
  from nearest_integer[OF den q_def r_def m_def]
  have near: "\<bar>of_int m - ?x / pow2 s\<bar> \<le> 1 / 2" unfolding y .
  have e52: "pow2 e = pow2 s * 2 ^ 52"
  proof -
    have "e = s + 52" by (simp add: s_def)
    then have "pow2 e = pow2 s * pow2 52" by (simp only: pow2_add)
    then show ?thesis by (simp add: pow2_def)
  qed
  have e53: "pow2 (e + 1) = pow2 s * 2 ^ 53"
  proof -
    have "e + 1 = s + 53" by (simp add: s_def)
    then have "pow2 (e + 1) = pow2 s * pow2 53" by (simp only: pow2_add)
    then show ?thesis by (simp add: pow2_def)
  qed
  have ylo: "2 ^ 52 \<le> ?x / pow2 s"
  proof -
    have "2 ^ 52 * pow2 s \<le> ?x" using ex(1) unfolding e52 by (simp only: mult.commute)
    then show ?thesis by (simp only: pos_le_divide_eq[OF pow2_pos])
  qed
  have yhi: "?x / pow2 s < 2 ^ 53"
  proof -
    have "?x < 2 ^ 53 * pow2 s" using ex(2) unfolding e53 by (simp only: mult.commute)
    then show ?thesis by (simp only: pos_divide_less_eq[OF pow2_pos])
  qed
  have "(2 ^ 52 :: rat) - 1 / 2 \<le> of_int m" using near ylo by linarith
  then have "(of_int (2 ^ 52 - 1) :: rat) < of_int m" by simp
  then have "2 ^ 52 - 1 < m" by (simp only: of_int_less_iff)
  then have mlo: "2 ^ 52 \<le> m" by simp
  have "(of_int m :: rat) < 2 ^ 53 + 1 / 2" using near yhi by linarith
  then have "(of_int m :: rat) < of_int (2 ^ 53 + 1)" by simp
  then have "m < 2 ^ 53 + 1" by (simp only: of_int_less_iff)
  then have mhi: "m \<le> 2 ^ 53" by simp
  have "pow2 (s + 52) = pow2 e" by (simp add: s_def)
  with ex(1) have "pow2 (s + 52) \<le> ?x" by simp
  with res mlo mhi near x show ?thesis by metis
qed

lemma truediv_error:
  assumes b: "0 < b"
  shows "\<bar>truediv a b - of_int a / of_int b\<bar> \<le> \<bar>of_int a / of_int b\<bar> / 2 ^ 53"
proof (cases "a = 0")
  case True
  then show ?thesis by (simp add: truediv_def)
next
  case False
  let ?v = "of_int a / of_int b :: rat"
  from truediv_nearest[OF b False] obtain m s where res: "truediv a b = of_int (sgn a * m) * pow2 s"
    and near: "\<bar>of_int m - \<bar>?v\<bar> / pow2 s\<bar> \<le> 1 / 2" and lo: "pow2 (s + 52) \<le> \<bar>?v\<bar>"
    by blast
  define w where "w = \<bar>?v\<bar>"
  have sg: "?v = of_int (sgn a) * w"
  proof (cases "0 < a")
    case True
    then show ?thesis using b by (simp add: w_def)
  next
    case False
    with \<open>a \<noteq> 0\<close> have "a < 0" by simp
    then have "?v < 0" using b by (simp add: divide_neg_pos)
    then have "w = - ?v" unfolding w_def by (simp only: abs_of_neg)
    then show ?thesis using \<open>a < 0\<close> by simp
  qed
  have "truediv a b - ?v = of_int (sgn a) * (of_int m * pow2 s - w)"
    unfolding res sg by (simp add: algebra_simps)
  then have "\<bar>truediv a b - ?v\<bar> = \<bar>of_int m * pow2 s - w\<bar>"
    using False by (simp add: abs_mult sgn_if)
  then have "\<bar>truediv a b - ?v\<bar> = \<bar>of_int m * pow2 s - \<bar>?v\<bar>\<bar>"
    unfolding w_def .
  also have "\<dots> = \<bar>of_int m - \<bar>?v\<bar> / pow2 s\<bar> * pow2 s"
  proof -
    have "of_int m * pow2 s - \<bar>?v\<bar> = (of_int m - \<bar>?v\<bar> / pow2 s) * pow2 s"
      using pow2_pos[of s] by (simp add: field_simps)
    then show ?thesis using pow2_pos[of s] by (simp add: abs_mult)
  qed
  also have "\<dots> \<le> 1 / 2 * pow2 s"
    using near pow2_pos[of s] by (simp add: mult_right_mono)
  also have "\<dots> = pow2 (s + 52) / 2 ^ 53"
  proof -
    have "pow2 (s + 52) = pow2 s * pow2 52" by (simp only: pow2_add)
    moreover have "pow2 52 = 2 ^ 52" by (simp add: pow2_def)
    ultimately show ?thesis by simp
  qed
  also have "\<dots> \<le> \<bar>?v\<bar> / 2 ^ 53" using lo by (simp add: divide_right_mono)
  finally show ?thesis .
qed

subsection \<open>Decoded amounts\<close>

lemma scaled_sample: "scaled 1234567890123456789 = 5559999489923579 / 4503599627370496"
  by code_simp

lemma deposit_row_amount:
  "deposit_row lg = Inr r \<Longrightarrow> decode_word (data lg) 0 = Inr w \<Longrightarrow>
   amount_raw r = w \<and> amount r = scaled w"
  by (auto simp: deposit_row_def bind_def split: sum.splits)

lemma withdrawal_row_amount:
  "withdrawal_row lg = Inr r \<Longrightarrow> decode_word (data lg) 0 = Inr w \<Longrightarrow>
   amount_raw r = w \<and> amount r = scaled w"
  by (auto simp: withdrawal_row_def bind_def split: sum.splits)

lemma rewards_issued_row_amount:
  "rewards_issued_row lg = Inr r \<Longrightarrow> decode_word (data lg) 0 = Inr w \<Longrightarrow>
   amount_raw r = w \<and> amount r = scaled w"
  by (auto simp: rewards_issued_row_def bind_def split: sum.splits)

lemma rewards_withdrawn_row_amount:
  "rewards_withdrawn_row lg = Inr r \<Longrightarrow> decode_word (data lg) 0 = Inr w \<Longrightarrow>
   amount_raw r = w \<and> amount r = scaled w"
  by (auto simp: rewards_withdrawn_row_def bind_def Let_def split: sum.splits)

text \<open>
  C7, as stated, fails: the scaled amount is a binary64, the result of Python's true
  division, and the exact quotient 1.234567890123456789 is not a binary64. For the
  deposit log that carries the amount, the parser gives the raw integer and the float
  \<open>5559999489923579 / 2 ^ 52\<close> (printed 1.2345678901234567), which is not the quotient.
\<close>

theorem scaled_amount_not_exact:
  "map_sum id (map amount_raw) (parse_deposits [amount_deposit]) = Inr [1234567890123456789] \<and>
   map_sum id (map amount) (parse_deposits [amount_deposit]) = Inr [5559999489923579 / 4503599627370496] \<and>
   (5559999489923579 / 4503599627370496 :: rat) \<noteq> 1234567890123456789 / 10 ^ 18"
proof -
  have "parse_deposits [amount_deposit] =
      Inr [\<lparr>block = 112, timestamp = 1694499072, event = ''FundsDeposited'',
            amount = 5559999489923579 / 4503599627370496,
            net_flow = 5559999489923579 / 4503599627370496,
            tx_hash = ''0xe1'', row_position_id = Some 1,
            amount_raw = 1234567890123456789, stake_raw = 1234567890123456789,
            row_stake = 5559999489923579 / 4503599627370496\<rparr>]"
    by code_simp
  moreover have "(5559999489923579 / 4503599627370496 :: rat) \<noteq> 1234567890123456789 / 10 ^ 18"
    by simp
  ultimately show ?thesis by simp
qed

text \<open>
  C7, amended. For the raw amount 1234567890123456789 every parser of
  \<^verbatim>\<open>enso_staking_tracker.py\<close> (FundsDeposited, FundsWithdrawn, RewardsIssued,
  RewardsWithdrawn) keeps the raw integer as \<open>amount_raw\<close> and gives as the scaled amount
  the binary64 nearest to the quotient by \<open>10 ^ 18\<close>, which is \<open>5559999489923579 / 2 ^ 52\<close>
  and lies within \<open>2 ^ -53\<close> of the quotient.
\<close>

theorem tracker_amount_rounded:
  assumes "decode_word (data lg) 0 = Inr 1234567890123456789"
    and "deposit_row lg = Inr r \<or> withdrawal_row lg = Inr r \<or>
         rewards_issued_row lg = Inr r \<or> rewards_withdrawn_row lg = Inr r"
  shows "amount_raw r = 1234567890123456789 \<and>
         amount r = 5559999489923579 / 2 ^ 52 \<and>
         \<bar>amount r - 1234567890123456789 / 10 ^ 18\<bar> \<le> 1 / 2 ^ 53"
proof -
  have "amount_raw r = 1234567890123456789 \<and> amount r = scaled 1234567890123456789"
    using assms deposit_row_amount withdrawal_row_amount rewards_issued_row_amount
      rewards_withdrawn_row_amount by blast
  then show ?thesis by (simp add: scaled_sample)
qed
theorem tracker_amount_rounded_witness:
  "(\<exists>r. deposit_row amount_deposit = Inr r \<and> amount_raw r = 1234567890123456789 \<and>
        amount r = 5559999489923579 / 2 ^ 52) \<and>
   (\<exists>r. withdrawal_row amount_withdrawal = Inr r \<and> amount_raw r = 1234567890123456789 \<and>
        amount r = 5559999489923579 / 2 ^ 52) \<and>
   (\<exists>r. rewards_issued_row amount_rewards_issued = Inr r \<and> amount_raw r = 1234567890123456789 \<and>
        amount r = 5559999489923579 / 2 ^ 52) \<and>
   (\<exists>r. rewards_withdrawn_row amount_rewards_withdrawn = Inr r \<and>
        amount_raw r = 1234567890123456789 \<and> amount r = 5559999489923579 / 2 ^ 52)"
proof -
  have d: "decode_word (data amount_deposit) 0 = Inr 1234567890123456789"
    by code_simp
  have "\<not> isl (deposit_row amount_deposit)" by code_simp
  then obtain r1 where r1: "deposit_row amount_deposit = Inr r1"
    by (cases "deposit_row amount_deposit") auto
  have w: "decode_word (data amount_withdrawal) 0 = Inr 1234567890123456789"
    by code_simp
  have "\<not> isl (withdrawal_row amount_withdrawal)" by code_simp
  then obtain r2 where r2: "withdrawal_row amount_withdrawal = Inr r2"
    by (cases "withdrawal_row amount_withdrawal") auto
  have i: "decode_word (data amount_rewards_issued) 0 = Inr 1234567890123456789"
    by code_simp
  have "\<not> isl (rewards_issued_row amount_rewards_issued)" by code_simp
  then obtain r3 where r3: "rewards_issued_row amount_rewards_issued = Inr r3"
    by (cases "rewards_issued_row amount_rewards_issued") auto
  have o: "decode_word (data amount_rewards_withdrawn) 0 = Inr 1234567890123456789"
    by code_simp
  have "\<not> isl (rewards_withdrawn_row amount_rewards_withdrawn)" by code_simp
  then obtain r4 where r4: "rewards_withdrawn_row amount_rewards_withdrawn = Inr r4"
    by (cases "rewards_withdrawn_row amount_rewards_withdrawn") auto
  show ?thesis
    using tracker_amount_rounded[OF d, of r1] tracker_amount_rounded[OF w, of r2]
      tracker_amount_rounded[OF i, of r3] tracker_amount_rounded[OF o, of r4] r1 r2 r3 r4
    by simp
qed

subsection \<open>Logs of the wrong shape\<close>

lemma py_int16_empty: "py_int16 [] = Inl ValueError"
  by (simp add: py_int16_def strip_sign_def strip_prefix16_def)

lemma decode_word_short: "length d \<le> 2 + 64 * i \<Longrightarrow> decode_word d i = Inl ValueError"
  by (simp add: decode_word_def py_int16_empty mult.commute)

lemma decode_word_partial:
  "length d < 66 + 64 * i \<Longrightarrow> decode_word d i = py_int16 (drop (2 + 64 * i) d)"
  by (simp add: decode_word_def mult.commute)

lemma decode_word_surplus:
  "66 + 64 * i \<le> length d \<Longrightarrow> decode_word (d @ extra) i = decode_word d i"
  by (simp add: decode_word_def mult.commute)

lemma topic_surplus:
  "i < length (topics lg) \<Longrightarrow> topic (lg\<lparr>topics := topics lg @ extra\<rparr>) i = topic lg i"
  by (simp add: topic_def nth_append)

text \<open>
  C6, as stated, fails. A deposit log whose second word is cut after two digits is
  decoded without any error, the two digits read as the stake; a deposit log without
  the topic of the position id raises IndexError, which carries no record.
\<close>

theorem malformed_log_not_signalled:
  "map_sum id (map amount_raw) (parse_deposits [truncated_deposit]) = Inr [1000000000000000000] \<and>
   map_sum id (map stake_raw) (parse_deposits [truncated_deposit]) = Inr [255] \<and>
   parse_deposits [no_id_deposit] = Inl IndexError"
  by code_simp

text \<open>
  C6, amended. No MalformedEventError exists and no exception carries the record. A log
  with fewer than two topics raises IndexError where the position id is read; a payload
  that ends at or before the start of a word that is read raises ValueError; a payload
  that ends inside the word is decoded from the digits that are there; and topics or
  payload beyond the expected shape are ignored.
\<close>

theorem decoding_wrong_shape:
  "(length (topics lg) < 2 \<longrightarrow> deposit_row lg = Inl IndexError) \<and>
   (length d \<le> 2 + 64 * i \<longrightarrow> decode_word d i = Inl ValueError) \<and>
   (length d < 66 + 64 * i \<longrightarrow> decode_word d i = py_int16 (drop (2 + 64 * i) d)) \<and>
   (66 + 64 * i \<le> length d \<longrightarrow> decode_word (d @ extra) i = decode_word d i) \<and>
   (2 \<le> length (topics lg) \<longrightarrow>
      deposit_row (lg\<lparr>topics := topics lg @ extra_topics\<rparr>) = deposit_row lg)"
proof -
  have "deposit_row lg = Inl IndexError" if "length (topics lg) < 2"
    using that by (simp add: deposit_row_def topic_def bind_def)
  moreover have "deposit_row (lg\<lparr>topics := topics lg @ extra_topics\<rparr>) = deposit_row lg"
    if "2 \<le> length (topics lg)"
    using that topic_surplus[of 1 lg extra_topics] by (simp add: deposit_row_def)
  ultimately show ?thesis
    using decode_word_short[of d i] decode_word_partial[of d i] decode_word_surplus[of i d extra]
    by blast
qed

theorem decoding_wrong_shape_witness:
  "deposit_row no_id_deposit = Inl IndexError \<and>
   decode_word ''0x'' 0 = Inl ValueError \<and>
   decode_word ''0xff'' 0 = Inr 255 \<and>
   decode_word (data withdrawal_1 @ ''ffff'') 0 = decode_word (data withdrawal_1) 0 \<and>
   deposit_row (deposit_1\<lparr>topics := topics deposit_1 @ [''0x00'']\<rparr>) = deposit_row deposit_1"
proof -
  have 1: "length (topics no_id_deposit) < 2" by (simp add: no_id_deposit_def)
  have 2: "length ''0x'' \<le> 2 + 64 * (0::nat)" by simp
  have 3: "length ''0xff'' < 66 + 64 * (0::nat)" by simp
  have 4: "66 + 64 * (0::nat) \<le> length (data withdrawal_1)"
    by (simp add: withdrawal_1_def word_def)
  have 5: "2 \<le> length (topics deposit_1)" by (simp add: deposit_1_def)
  have 6: "py_int16 (drop (2 + 64 * 0) ''0xff'') = Inr 255" by code_simp
  show ?thesis
    using decoding_wrong_shape[of no_id_deposit "''0x''" 0 "[]" "[]"]
      decoding_wrong_shape[of deposit_1 "''0xff''" 0 "[]" "[''0x00'']"]
      decoding_wrong_shape[of deposit_1 "data withdrawal_1" 0 "''ffff''" "[]"]
      1 2 3 4 5 6
    by simp
qed

subsection \<open>The owner aggregation\<close>






lemma owner_keys:
  "distinct (sort (remdups (List.map_filter owner df)))"
  "set (sort (remdups (List.map_filter owner df))) = {a. \<exists>p \<in> set df. owner p = Some a}"
  by (force simp: List.map_filter_def)+





text \<open>The frames of both scripts: the active positions, in some order, and their aggregation.\<close>

lemma tables_frames:
  assumes "dashboard_tables csum positions = Inr (active_df, owner_df) \<or>
           stakers_tables csum positions = Inr (active_df, owner_df)"
  shows "owner_df = owner_aggregation csum active_df"
    and "mset active_df = mset (active_positions (map snd positions))"
  using assms
  by (auto simp: dashboard_tables_def stakers_tables_def Let_def split: if_splits)

text \<open>A row aggregates the positions of its owner, and there is one.\<close>

lemma aggregation_rows:
  assumes "r \<in> set (owner_aggregation csum df)"
  shows "\<exists>i. r = (agg csum (owner_addr r, filter (\<lambda>p. owner p = Some (owner_addr r)) df))\<lparr>rank := i\<rparr> \<and>
             (\<exists>p \<in> set df. owner p = Some (owner_addr r))"
proof -
  let ?rows = "sort_key (\<lambda>r. - total_staked r) (map (agg csum) (groupby_owner df))"
  from assms obtain ir where ir: "ir \<in> set (enumerate 0 ?rows)" and r0: "r = (snd ir)\<lparr>rank := Suc (fst ir)\<rparr>"
    unfolding owner_aggregation_def with_rank_def by (auto simp: case_prod_beta)
  from ir have "fst ir < length ?rows" and "?rows ! fst ir = snd ir"
    by (simp_all add: in_set_enumerate_eq)
  then have "snd ir \<in> set ?rows" by (metis nth_mem)
  then have "snd ir \<in> set (map (agg csum) (groupby_owner df))" by simp
  with r0 obtain i g where g: "g \<in> set (groupby_owner df)" and r: "r = (agg csum g)\<lparr>rank := i\<rparr>"
    by auto
  from g obtain a where a: "a \<in> set (sort (remdups (List.map_filter owner df)))"
    and ga: "g = (a, filter (\<lambda>p. owner p = Some a) df)"
    unfolding groupby_owner_def by auto
  from a have "\<exists>p \<in> set df. owner p = Some a" by (simp only: owner_keys) simp
  moreover have "owner_addr r = a" using r ga by (simp add: agg_def)
  ultimately show ?thesis using r ga by auto
qed

lemma aggregation_row_totals:
  assumes "r \<in> set (owner_aggregation csum df)"
  shows "(\<exists>p \<in> set df. owner p = Some (owner_addr r)) \<and>
         total_staked r = csum (map net_deposited (filter (\<lambda>p. owner p = Some (owner_addr r)) df)) \<and>
         total_stake_weight r = csum (map stake (filter (\<lambda>p. owner p = Some (owner_addr r)) df)) \<and>
         num_positions r = length (filter (\<lambda>p. owner p = Some (owner_addr r)) df)"
proof -
  from aggregation_rows[OF assms] obtain i where
    r: "r = (agg csum (owner_addr r, filter (\<lambda>p. owner p = Some (owner_addr r)) df))\<lparr>rank := i\<rparr>"
    and ex: "\<exists>p \<in> set df. owner p = Some (owner_addr r)" by blast
  define g where "g = filter (\<lambda>p. owner p = Some (owner_addr r)) df"
  from r have "r = (agg csum (owner_addr r, g))\<lparr>rank := i\<rparr>" by (simp add: g_def)
  then have "total_staked r = total_staked ((agg csum (owner_addr r, g))\<lparr>rank := i\<rparr>)"
    and "total_stake_weight r = total_stake_weight ((agg csum (owner_addr r, g))\<lparr>rank := i\<rparr>)"
    and "num_positions r = num_positions ((agg csum (owner_addr r, g))\<lparr>rank := i\<rparr>)"
    by simp_all
  then have "total_staked r = csum (map net_deposited g) \<and>
      total_stake_weight r = csum (map stake g) \<and> num_positions r = length g"
    by (simp add: agg_def)
  with ex show ?thesis by (simp add: g_def)
qed

lemma groupby_owner_owned:
  "groupby_owner (filter (\<lambda>p. owner p \<noteq> None) df) = groupby_owner df"
proof -
  have "List.map_filter owner (filter (\<lambda>p. owner p \<noteq> None) df) = List.map_filter owner df"
    by (simp add: List.map_filter_def)
  moreover have "filter (\<lambda>p. owner p = Some a) (filter (\<lambda>p. owner p \<noteq> None) df) =
      filter (\<lambda>p. owner p = Some a) df" for a
    by (auto intro: filter_cong)
  ultimately show ?thesis by (simp add: groupby_owner_def)
qed

text \<open>
  On a group of one binary64 the grouped sum is that value, and on a group of two it is
  their float sum, as for every summation that rounds each addition.
\<close>

lemma fl53_0: "fl53 0 = 0"
  by (simp add: fl53_def truediv_def)

lemma group_sum_single: "fl53 x = x \<Longrightarrow> group_sum [x] = x"
  by (simp add: group_sum_def fadd_def fsub_def Let_def)

lemma group_sum_pair: "fl53 x = x \<Longrightarrow> fl53 y = y \<Longrightarrow> group_sum [x, y] = fadd x y"
  by (simp add: group_sum_def fadd_def fsub_def Let_def fl53_0)

lemma sample_tables:
  "dashboard_tables group_sum sample_positions =
     Inr (map snd (take 4 sample_positions),
          owner_aggregation group_sum (map snd (take 4 sample_positions)))"
  by code_simp





text \<open>
  C3, as stated, fails: there is no group for positions without an owner. With one
  position that is created and receives a deposit but is never transferred,
  \<open>load_data\<close> returns this position as active and an \<open>owner_df\<close> without any row.
\<close>

theorem ownerless_position_dropped:
  "load_data group_sum [deposit_1] [] [] [] [created_1] [] =
     Inr ([\<lparr>block = 101, timestamp = 1694498832, event = ''Deposit'', amount = 1000,
            net_flow = 1000\<rparr>],
          [\<lparr>position_id = 1, expiry_ts = 1800000000, validator = [118, 49], owner = None,
            net_deposited = 1000, stake = 1000\<rparr>],
          [])"
  by code_simp

text \<open>
  C3, amended. An active position without a recorded owner is in the frame of active
  positions, and in no group of the owner aggregation: no row has a sentinel key, every
  row has the address of an owner of some active position as its key and aggregates
  exactly the active positions of that owner (its totals are the column sums, as pandas
  computes them, of their net deposits and stakes), so the position is never merged
  into the totals of an address; the aggregation is the one of the positions that have
  an owner.
\<close>

theorem ownerless_position_in_no_group:
  assumes "dashboard_tables column_sum positions = Inr (active_df, owner_df) \<or>
           stakers_tables column_sum positions = Inr (active_df, owner_df)"
  shows "(\<forall>p \<in> snd ` set positions. 0 < net_deposited p \<longrightarrow> p \<in> set active_df) \<and>
         (\<forall>r \<in> set owner_df.
            (\<exists>p \<in> set active_df. owner p = Some (owner_addr r)) \<and>
            total_staked r =
              column_sum (map net_deposited
                (filter (\<lambda>p. owner p = Some (owner_addr r)) active_df)) \<and>
            total_stake_weight r =
              column_sum (map stake (filter (\<lambda>p. owner p = Some (owner_addr r)) active_df)) \<and>
            num_positions r = length (filter (\<lambda>p. owner p = Some (owner_addr r)) active_df)) \<and>
         owner_df = owner_aggregation column_sum (filter (\<lambda>p. owner p \<noteq> None) active_df)"
proof -
  note fr = tables_frames[OF assms]
  have "set active_df = set (active_positions (map snd positions))"
    using fr(2) by (metis set_mset_mset)
  then have 1: "\<forall>p \<in> snd ` set positions. 0 < net_deposited p \<longrightarrow> p \<in> set active_df"
    by (auto simp: active_positions_def)
  have 2: "(\<exists>p \<in> set active_df. owner p = Some (owner_addr r)) \<and>
      total_staked r =
        column_sum (map net_deposited (filter (\<lambda>p. owner p = Some (owner_addr r)) active_df)) \<and>
      total_stake_weight r =
        column_sum (map stake (filter (\<lambda>p. owner p = Some (owner_addr r)) active_df)) \<and>
      num_positions r = length (filter (\<lambda>p. owner p = Some (owner_addr r)) active_df)"
    if "r \<in> set owner_df" for r
    using that unfolding fr(1) by (rule aggregation_row_totals)
  have 3: "owner_df = owner_aggregation column_sum (filter (\<lambda>p. owner p \<noteq> None) active_df)"
    using fr(1) by (simp only: owner_aggregation_def groupby_owner_owned)
  from 1 2 3 show ?thesis by blast
qed

theorem ownerless_position_in_no_group_witness:
  "\<exists>active_df owner_df.
     dashboard_tables group_sum sample_positions = Inr (active_df, owner_df) \<and>
     snd (sample_positions ! 3) \<in> set active_df \<and>
     owner (snd (sample_positions ! 3)) = None \<and>
     map owner_addr owner_df = [alice, bob] \<and>
     map total_staked owner_df = [625, 50] \<and>
     owner_df = owner_aggregation group_sum (filter (\<lambda>p. owner p \<noteq> None) active_df)"
proof -
  let ?A = "map snd (take 4 sample_positions)"
  let ?O = "owner_aggregation group_sum ?A"
  have p: "snd (sample_positions ! 3) \<in> snd ` set sample_positions"
    and n: "0 < net_deposited (snd (sample_positions ! 3))"
    and o: "owner (snd (sample_positions ! 3)) = None"
    by (simp_all add: sample_positions_def)
  have a: "map owner_addr ?O = [alice, bob]" by code_simp
  have t: "map total_staked ?O = [625, 50]" by code_simp
  have tables: "dashboard_tables group_sum sample_positions = Inr (?A, ?O) \<or>
      stakers_tables group_sum sample_positions = Inr (?A, ?O)"
    using sample_tables by simp
  from ownerless_position_in_no_group[OF tables] p n
  have m: "snd (sample_positions ! 3) \<in> set ?A"
    and g: "?O = owner_aggregation group_sum (filter (\<lambda>p. owner p \<noteq> None) ?A)"
    by blast+
  show ?thesis
    by (intro exI[of _ ?A] exI[of _ ?O] conjI) (rule sample_tables m o a t g)+
qed

subsection \<open>Loops over logs\<close>

lemma run_append: "run step (xs @ ys) t = bind (run step xs t) (run step ys)"
  by (induction xs arbitrary: t) (auto simp: bind_def split: sum.splits)

lemma run_invariant:
  assumes "run step xs t = Inr t'" and "P t"
    and "\<And>x s s'. x \<in> set xs \<Longrightarrow> P s \<Longrightarrow> step x s = Inr s' \<Longrightarrow> P s'"
  shows "P t'"
  using assms
proof (induction xs arbitrary: t)
  case Nil
  then show ?case by simp
next
  case (Cons x xs)
  from Cons.prems(1) obtain s where s: "step x t = Inr s" and r: "run step xs s = Inr t'"
    by (auto simp: bind_def split: sum.splits)
  have "x \<in> set (x # xs)" by simp
  then have Ps: "P s" using Cons.prems(2) s by (rule Cons.prems(3))
  show ?case
  proof (rule Cons.IH[OF r Ps])
    fix y u u'
    assume "y \<in> set xs" and u: "P u" "step y u = Inr u'"
    then have "y \<in> set (x # xs)" by simp
    then show "P u'" using u by (rule Cons.prems(3))
  qed
qed

lemma run_skip:
  assumes "P t"
    and "\<And>x s s'. x \<in> set xs \<Longrightarrow> P s \<Longrightarrow> step x s = Inr s' \<Longrightarrow> P s'"
    and "\<And>s. P s \<Longrightarrow> step l s = Inr s"
  shows "run step (xs @ l # ys) t = run step (xs @ ys) t"
proof (cases "run step xs t")
  case (Inl e)
  then show ?thesis by (simp add: run_append bind_def)
next
  case (Inr s)
  have "P s" using Inr assms(1) by (rule run_invariant[where P = P]) (rule assms(2))
  then have "step l s = Inr s" by (rule assms(3))
  with Inr show ?thesis by (simp add: run_append bind_def)
qed

lemma known_map_entry [simp]: "known pid (AList.map_entry k f t) = known pid t"
  by (induction t) (auto simp: known_def)

lemma known_update [simp]: "known pid (AList.update k v t) = (pid = k \<or> known pid t)"
  using dom_update[of k v t] by (auto simp: known_def)

lemma new_position_id: "new_position lg = Inr p \<Longrightarrow> log_id lg = Inr (position_id p)"
  by (auto simp: new_position_def log_id_def bind_def split: sum.splits)

lemma new_position_fresh:
  "new_position lg = Inr p \<Longrightarrow> owner p = None \<and> net_deposited p = 0 \<and> stake p = 0"
  by (auto simp: new_position_def bind_def split: sum.splits)

lemma new_position_stakers_Inr: "new_position_stakers lg = Inr p \<Longrightarrow> new_position lg = Inr p"
  by (auto simp: new_position_stakers_def bind_def split: sum.splits if_splits)

text \<open>Which ids a step can add to the table, and which steps add none.\<close>

lemma created_known:
  assumes "created mk lg t = Inr t'" and "\<And>p. mk lg = Inr p \<Longrightarrow> log_id lg = Inr (position_id p)"
  shows "known pid t' \<longleftrightarrow> log_id lg = Inr pid \<or> known pid t"
  using assms by (auto simp: created_def bind_def split: sum.splits)

lemma transferred_known: "transferred addr lg t = Inr t' \<Longrightarrow> known pid t' = known pid t"
  by (auto simp: transferred_def bind_def split: sum.splits if_splits)

lemma deposited_dashboard_known: "deposited_dashboard lg t = Inr t' \<Longrightarrow> known pid t' = known pid t"
  by (auto simp: deposited_dashboard_def bind_def split: sum.splits if_splits)

lemma withdrawn_dashboard_known: "withdrawn_dashboard lg t = Inr t' \<Longrightarrow> known pid t' = known pid t"
  by (auto simp: withdrawn_dashboard_def bind_def split: sum.splits if_splits)

lemma deposited_stakers_known: "deposited_stakers lg t = Inr t' \<Longrightarrow> known pid t' = known pid t"
  by (auto simp: deposited_stakers_def bind_def split: sum.splits if_splits)

lemma withdrawn_stakers_known: "withdrawn_stakers lg t = Inr t' \<Longrightarrow> known pid t' = known pid t"
  by (auto simp: withdrawn_stakers_def bind_def split: sum.splits if_splits)

lemma run_created_known:
  assumes "run (created mk) pc t = Inr t'"
    and "\<And>lg p. mk lg = Inr p \<Longrightarrow> log_id lg = Inr (position_id p)"
  shows "known pid t' \<longleftrightarrow> Inr pid \<in> log_id ` set pc \<or> known pid t"
  using assms(1)
proof (induction pc arbitrary: t)
  case Nil
  then show ?case by simp
next
  case (Cons lg pc)
  from Cons.prems obtain s where s: "created mk lg t = Inr s" and r: "run (created mk) pc s = Inr t'"
    by (auto simp: bind_def split: sum.splits)
  have "known pid s \<longleftrightarrow> log_id lg = Inr pid \<or> known pid t"
    using created_known[OF s] assms(2) by blast
  with Cons.IH[OF r] show ?case by auto
qed

subsection \<open>Logs for a position that was never created\<close>

lemma bind_cong: "(\<And>x. m = Inr x \<Longrightarrow> f x = g x) \<Longrightarrow> bind m f = bind m g"
  by (cases m) (simp_all add: bind_def)

lemma known_Nil [simp]: "\<not> known pid []"
  by (simp add: known_def)

lemma token_id_topic2: "token_id lg = Inr pid \<Longrightarrow> topic lg 2 = Inr (topics lg ! 2)"
  by (auto simp: token_id_def topic_def bind_def split: if_splits)

lemma transferred_dashboard_unknown:
  "token_id lg = Inr pid \<Longrightarrow> \<not> known pid t \<Longrightarrow> transferred addr_from_topic_dashboard lg t = Inr t"
  using token_id_topic2[of lg pid]
  by (auto simp: transferred_def token_id_def addr_from_topic_dashboard_def bind_def
      split: sum.splits)

lemma transferred_stakers_unknown:
  "token_id lg = Inr pid \<Longrightarrow> \<not> known pid t \<Longrightarrow>
   addr_from_topic_stakers cs (topics lg ! 2) = Inr a \<Longrightarrow>
   transferred (addr_from_topic_stakers cs) lg t = Inr t"
  using token_id_topic2[of lg pid]
  by (auto simp: transferred_def token_id_def bind_def split: sum.splits)

lemma deposited_dashboard_unknown:
  "log_id lg = Inr pid \<Longrightarrow> \<not> known pid t \<Longrightarrow> deposited_dashboard lg t = Inr t"
  by (auto simp: deposited_dashboard_def log_id_def bind_def split: sum.splits)

lemma withdrawn_dashboard_unknown:
  "log_id lg = Inr pid \<Longrightarrow> \<not> known pid t \<Longrightarrow> withdrawn_dashboard lg t = Inr t"
  by (auto simp: withdrawn_dashboard_def log_id_def bind_def split: sum.splits)

lemma deposited_stakers_unknown:
  "log_id lg = Inr pid \<Longrightarrow> \<not> known pid t \<Longrightarrow> decode_word (data lg) 0 = Inr f \<Longrightarrow>
   decode_word (data lg) 1 = Inr s \<Longrightarrow> deposited_stakers lg t = Inr t"
  by (auto simp: deposited_stakers_def log_id_def bind_def split: sum.splits)

lemma withdrawn_stakers_unknown:
  "log_id lg = Inr pid \<Longrightarrow> \<not> known pid t \<Longrightarrow> decode_word (data lg) 0 = Inr f \<Longrightarrow>
   withdrawn_stakers lg t = Inr t"
  by (auto simp: withdrawn_stakers_def log_id_def bind_def split: sum.splits)

text \<open>A table built from PositionCreated logs none of which has the id does not know it.\<close>

lemma created_unknown:
  assumes "Inr pid \<notin> log_id ` set pc" and "run (created new_position) pc [] = Inr t"
  shows "\<not> known pid t"
  using run_created_known[OF assms(2), of pid] new_position_id assms(1) by simp

lemma created_stakers_unknown:
  assumes "Inr pid \<notin> log_id ` set pc" and "run (created new_position_stakers) pc [] = Inr t"
  shows "\<not> known pid t"
  using run_created_known[OF assms(2), of pid] new_position_id new_position_stakers_Inr assms(1)
  by simp

lemma run_known:
  assumes "\<And>x s s'. step x s = Inr s' \<Longrightarrow> known pid s' = known pid s"
    and "run step xs t = Inr t'"
  shows "known pid t' = known pid t"
  using assms(2)
proof (induction xs arbitrary: t)
  case Nil
  then show ?case by simp
next
  case (Cons x xs)
  from Cons.prems obtain s where s: "step x t = Inr s" and r: "run step xs s = Inr t'"
    by (auto simp: bind_def split: sum.splits)
  from Cons.IH[OF r] assms(1)[OF s] show ?case by simp
qed

lemma run_transferred_known:
  "run (transferred addr) xs t = Inr t' \<Longrightarrow> known pid t' = known pid t"
  by (rule run_known[of "transferred addr"]) (rule transferred_known)

lemma run_deposited_dashboard_known:
  "run deposited_dashboard xs t = Inr t' \<Longrightarrow> known pid t' = known pid t"
  by (rule run_known[of deposited_dashboard]) (rule deposited_dashboard_known)

lemma run_withdrawn_dashboard_known:
  "run withdrawn_dashboard xs t = Inr t' \<Longrightarrow> known pid t' = known pid t"
  by (rule run_known[of withdrawn_dashboard]) (rule withdrawn_dashboard_known)

lemma run_deposited_stakers_known:
  "run deposited_stakers xs t = Inr t' \<Longrightarrow> known pid t' = known pid t"
  by (rule run_known[of deposited_stakers]) (rule deposited_stakers_known)

lemma run_withdrawn_stakers_known:
  "run withdrawn_stakers xs t = Inr t' \<Longrightarrow> known pid t' = known pid t"
  by (rule run_known[of withdrawn_stakers]) (rule withdrawn_stakers_known)

lemma run_skip_unknown:
  assumes "\<not> known pid t"
    and "\<And>x s s'. step x s = Inr s' \<Longrightarrow> known pid s' = known pid s"
    and "\<And>s. \<not> known pid s \<Longrightarrow> step l s = Inr s"
  shows "run step (xs @ l # ys) t = run step (xs @ ys) t"
  using assms(1)
  by (rule run_skip[where P = "\<lambda>t. \<not> known pid t"]) (simp_all add: assms(2,3))

lemma dashboard_skip_deposit:
  assumes "Inr pid \<notin> log_id ` set pc" and "log_id d = Inr pid"
  shows "positions_dashboard pc tr (d1 @ d # d2) wth = positions_dashboard pc tr (d1 @ d2) wth"
  unfolding positions_dashboard_def
proof (intro bind_cong)
  fix p1 p2
  assume "run (created new_position) pc [] = Inr p1"
    and "run (transferred addr_from_topic_dashboard) tr p1 = Inr p2"
  then have "\<not> known pid p2"
    using created_unknown[OF assms(1)] run_transferred_known by blast
  then show "bind (run deposited_dashboard (d1 @ d # d2) p2) (run withdrawn_dashboard wth) =
      bind (run deposited_dashboard (d1 @ d2) p2) (run withdrawn_dashboard wth)"
    using run_skip_unknown[of pid p2 deposited_dashboard d d1 d2]
      deposited_dashboard_known deposited_dashboard_unknown[OF assms(2)] by simp
qed

lemma dashboard_skip_withdrawal:
  assumes "Inr pid \<notin> log_id ` set pc" and "log_id w = Inr pid"
  shows "positions_dashboard pc tr dep (w1 @ w # w2) = positions_dashboard pc tr dep (w1 @ w2)"
  unfolding positions_dashboard_def
proof (intro bind_cong)
  fix p1 p2 p3
  assume "run (created new_position) pc [] = Inr p1"
    and "run (transferred addr_from_topic_dashboard) tr p1 = Inr p2"
    and "run deposited_dashboard dep p2 = Inr p3"
  then have "\<not> known pid p3"
    using created_unknown[OF assms(1)] run_transferred_known run_deposited_dashboard_known
    by blast
  then show "run withdrawn_dashboard (w1 @ w # w2) p3 = run withdrawn_dashboard (w1 @ w2) p3"
    using run_skip_unknown[of pid p3 withdrawn_dashboard w w1 w2]
      withdrawn_dashboard_known withdrawn_dashboard_unknown[OF assms(2)] by simp
qed

lemma dashboard_skip_transfer:
  assumes "Inr pid \<notin> log_id ` set pc" and "token_id x = Inr pid"
  shows "positions_dashboard pc (t1 @ x # t2) dep wth = positions_dashboard pc (t1 @ t2) dep wth"
  unfolding positions_dashboard_def
proof (intro bind_cong)
  fix p1
  assume "run (created new_position) pc [] = Inr p1"
  then have "\<not> known pid p1" using created_unknown[OF assms(1)] by blast
  then have "run (transferred addr_from_topic_dashboard) (t1 @ x # t2) p1 =
      run (transferred addr_from_topic_dashboard) (t1 @ t2) p1"
    using run_skip_unknown[of pid p1 "transferred addr_from_topic_dashboard" x t1 t2]
      transferred_known transferred_dashboard_unknown[OF assms(2)] by simp
  then show "bind (run (transferred addr_from_topic_dashboard) (t1 @ x # t2) p1)
        (\<lambda>p2. bind (run deposited_dashboard dep p2) (run withdrawn_dashboard wth)) =
      bind (run (transferred addr_from_topic_dashboard) (t1 @ t2) p1)
        (\<lambda>p2. bind (run deposited_dashboard dep p2) (run withdrawn_dashboard wth))"
    by simp
qed

lemma dashboard_unknown:
  assumes "Inr pid \<notin> log_id ` set pc" and "positions_dashboard pc tr dep wth = Inr t"
  shows "\<not> known pid t"
proof -
  from assms(2) obtain p1 p2 p3 where "run (created new_position) pc [] = Inr p1"
    and "run (transferred addr_from_topic_dashboard) tr p1 = Inr p2"
    and "run deposited_dashboard dep p2 = Inr p3"
    and "run withdrawn_dashboard wth p3 = Inr t"
    by (auto simp: positions_dashboard_def bind_def split: sum.splits)
  then show ?thesis
    using created_unknown[OF assms(1)] run_transferred_known run_deposited_dashboard_known
      run_withdrawn_dashboard_known by blast
qed

lemma stakers_skip_deposit:
  assumes "Inr pid \<notin> log_id ` set pc" and "log_id d = Inr pid"
    and "decode_word (data d) 0 = Inr f" and "decode_word (data d) 1 = Inr s"
  shows "positions_stakers cs pc tr (d1 @ d # d2) wth = positions_stakers cs pc tr (d1 @ d2) wth"
  unfolding positions_stakers_def
proof (intro bind_cong)
  fix p1 p2
  assume "run (created new_position_stakers) pc [] = Inr p1"
    and "run (transferred (addr_from_topic_stakers cs)) tr p1 = Inr p2"
  then have "\<not> known pid p2"
    using created_stakers_unknown[OF assms(1)] run_transferred_known by blast
  then show "bind (run deposited_stakers (d1 @ d # d2) p2) (run withdrawn_stakers wth) =
      bind (run deposited_stakers (d1 @ d2) p2) (run withdrawn_stakers wth)"
    using run_skip_unknown[of pid p2 deposited_stakers d d1 d2]
      deposited_stakers_known deposited_stakers_unknown[OF assms(2) _ assms(3,4)] by simp
qed

lemma stakers_skip_withdrawal:
  assumes "Inr pid \<notin> log_id ` set pc" and "log_id w = Inr pid"
    and "decode_word (data w) 0 = Inr f"
  shows "positions_stakers cs pc tr dep (w1 @ w # w2) = positions_stakers cs pc tr dep (w1 @ w2)"
  unfolding positions_stakers_def
proof (intro bind_cong)
  fix p1 p2 p3
  assume "run (created new_position_stakers) pc [] = Inr p1"
    and "run (transferred (addr_from_topic_stakers cs)) tr p1 = Inr p2"
    and "run deposited_stakers dep p2 = Inr p3"
  then have "\<not> known pid p3"
    using created_stakers_unknown[OF assms(1)] run_transferred_known run_deposited_stakers_known
    by blast
  then show "run withdrawn_stakers (w1 @ w # w2) p3 = run withdrawn_stakers (w1 @ w2) p3"
    using run_skip_unknown[of pid p3 withdrawn_stakers w w1 w2]
      withdrawn_stakers_known withdrawn_stakers_unknown[OF assms(2) _ assms(3)] by simp
qed

lemma stakers_skip_transfer:
  assumes "Inr pid \<notin> log_id ` set pc" and "token_id x = Inr pid"
    and "addr_from_topic_stakers cs (topics x ! 2) = Inr a"
  shows "positions_stakers cs pc (t1 @ x # t2) dep wth = positions_stakers cs pc (t1 @ t2) dep wth"
  unfolding positions_stakers_def
proof (intro bind_cong)
  fix p1
  assume "run (created new_position_stakers) pc [] = Inr p1"
  then have "\<not> known pid p1" using created_stakers_unknown[OF assms(1)] by blast
  then have "run (transferred (addr_from_topic_stakers cs)) (t1 @ x # t2) p1 =
      run (transferred (addr_from_topic_stakers cs)) (t1 @ t2) p1"
    using run_skip_unknown[of pid p1 "transferred (addr_from_topic_stakers cs)" x t1 t2]
      transferred_known transferred_stakers_unknown[OF assms(2) _ assms(3)] by simp
  then show "bind (run (transferred (addr_from_topic_stakers cs)) (t1 @ x # t2) p1)
        (\<lambda>p2. bind (run deposited_stakers dep p2) (run withdrawn_stakers wth)) =
      bind (run (transferred (addr_from_topic_stakers cs)) (t1 @ t2) p1)
        (\<lambda>p2. bind (run deposited_stakers dep p2) (run withdrawn_stakers wth))"
    by simp
qed

lemma stakers_unknown:
  assumes "Inr pid \<notin> log_id ` set pc" and "positions_stakers cs pc tr dep wth = Inr t"
  shows "\<not> known pid t"
proof -
  from assms(2) obtain p1 p2 p3 where "run (created new_position_stakers) pc [] = Inr p1"
    and "run (transferred (addr_from_topic_stakers cs)) tr p1 = Inr p2"
    and "run deposited_stakers dep p2 = Inr p3"
    and "run withdrawn_stakers wth p3 = Inr t"
    by (auto simp: positions_stakers_def bind_def split: sum.splits)
  then show ?thesis
    using created_stakers_unknown[OF assms(1)] run_transferred_known run_deposited_stakers_known
      run_withdrawn_stakers_known by blast
qed

text \<open>The rows of a loop over logs when one more log stands in the list.\<close>

lemma for_each_append:
  "for_each f (xs @ ys) =
     bind (for_each f xs) (\<lambda>a. bind (for_each f ys) (\<lambda>b. Inr (a @ b)))"
  by (induction xs) (auto simp: bind_def split: sum.splits)

lemma for_each_length: "for_each f xs = Inr rows \<Longrightarrow> length rows = length xs"
  by (induction xs arbitrary: rows) (auto simp: bind_def split: sum.splits)

lemma for_each_insert:
  assumes "f x = Inr r" and "for_each f (xs @ ys) = Inr rows"
  shows "for_each f (xs @ x # ys) = Inr (take (length xs) rows @ r # drop (length xs) rows)"
proof -
  from assms(2) obtain a b where a: "for_each f xs = Inr a" and b: "for_each f ys = Inr b"
    and rows: "rows = a @ b"
    by (auto simp: for_each_append bind_def split: sum.splits)
  have "length a = length xs" using a by (rule for_each_length)
  then show ?thesis using a b rows assms(1) by (simp add: for_each_append bind_def)
qed

lemma flow_rows_insert:
  assumes "deposit_flow d = Inr r" and "flow_rows (d1 @ d2) wth ri rw = Inr rows"
  shows "flow_rows (d1 @ d # d2) wth ri rw =
         Inr (take (length d1) rows @ r # drop (length d1) rows)"
proof -
  from assms(2) obtain deps rest where deps: "for_each deposit_flow (d1 @ d2) = Inr deps"
    and rest: "bind (for_each withdrawal_flow wth) (\<lambda>wths.
        bind (for_each rewards_issued_flow ri) (\<lambda>ris.
        bind (for_each rewards_withdrawn_flow rw) (\<lambda>rws. Inr (wths @ ris @ rws)))) = Inr rest"
    and rows: "rows = deps @ rest"
    by (auto simp: flow_rows_def bind_def split: sum.splits)
  have len: "length deps = length (d1 @ d2)" using deps by (rule for_each_length)
  have ins: "for_each deposit_flow (d1 @ d # d2) =
      Inr (take (length d1) deps @ r # drop (length d1) deps)"
    using for_each_insert[OF assms(1) deps] .
  have "flow_rows (d1 @ d # d2) wth ri rw =
      Inr ((take (length d1) deps @ r # drop (length d1) deps) @ rest)"
    using rest by (auto simp: flow_rows_def ins bind_def split: sum.splits)
  then show ?thesis using rows len by simp
qed

lemma deposit_flow_amount:
  "deposit_flow d = Inr r \<Longrightarrow> decode_word (data d) 0 = Inr funds \<Longrightarrow>
   net_flow r = scaled funds \<and> amount r = scaled funds \<and> event r = ''Deposit''"
  by (auto simp: deposit_flow_def bind_def Let_def split: sum.splits)

lemma flow_df_member: "flow_df rows = Inr flow \<Longrightarrow> r \<in> set rows \<Longrightarrow> r \<in> set flow"
  by (auto simp: flow_df_def split: if_splits)

text \<open>
  C4, as stated, fails: "no prior PositionCreated" is not what the scripts test. Both
  read every PositionCreated log before the first deposit and never compare block
  numbers, so a deposit of block 104 for position 99 is applied to the position that a
  PositionCreated log of block 107 creates: the table with the deposit differs from the
  table without it.
\<close>

theorem deposit_before_creation_is_applied:
  "h (blockNumber deposit_99) = Inr 104 \<and> h (blockNumber created_99_late) = Inr 107 \<and>
   positions_dashboard [created_99_late] [] [deposit_99] [] =
     Inr [(99, \<lparr>position_id = 99, expiry_ts = 1800000000, validator = [118, 49],
                owner = None, net_deposited = 1000, stake = 1000\<rparr>)] \<and>
   positions_dashboard [created_99_late] [] [] [] =
     Inr [(99, \<lparr>position_id = 99, expiry_ts = 1800000000, validator = [118, 49],
                owner = None, net_deposited = 0, stake = 0\<rparr>)] \<and>
   positions_stakers sample_checksum [created_99_late] [] [deposit_99] [] =
     Inr [(99, \<lparr>position_id = 99, expiry_ts = 1800000000, validator = [118, 49],
                owner = None, net_deposited = 1000, stake = 1000\<rparr>)] \<and>
   positions_stakers sample_checksum [created_99_late] [] [] [] =
     Inr [(99, \<lparr>position_id = 99, expiry_ts = 1800000000, validator = [118, 49],
                owner = None, net_deposited = 0, stake = 0\<rparr>)]"
  by code_simp

text \<open>
  C4, amended. Let no PositionCreated log among the fetched ones carry the id \<open>pid\<close>,
  whatever its block, and let \<open>d\<close> be a FundsDeposited log for \<open>pid\<close> whose payload
  decodes. Then the positions dict of \<open>load_data\<close> and of \<open>main\<close> is the same with \<open>d\<close>
  among the deposits as without it, and does not hold \<open>pid\<close>: no position is created
  and none is changed. The same holds for a FundsWithdrawn log and a Transfer log of
  \<open>pid\<close>. The flow rows of \<open>load_data\<close> nevertheless have one more row at the place of
  \<open>d\<close>, with the scaled amount of \<open>d\<close> as \<open>net_flow\<close>, and the row is in the flow
  table sorted from them.
\<close>

theorem unknown_id_is_dropped_but_counted:
  assumes "Inr pid \<notin> log_id ` set pc_logs"
    and "log_id d = Inr pid"
    and "decode_word (data d) 0 = Inr funds"
    and "decode_word (data d) 1 = Inr stake_added"
  shows "positions_dashboard pc_logs tr_logs (dpre @ d # dpost) wth_logs =
           positions_dashboard pc_logs tr_logs (dpre @ dpost) wth_logs \<and>
         positions_stakers cs pc_logs tr_logs (dpre @ d # dpost) wth_logs =
           positions_stakers cs pc_logs tr_logs (dpre @ dpost) wth_logs \<and>
         (\<forall>t. positions_dashboard pc_logs tr_logs (dpre @ d # dpost) wth_logs = Inr t \<or>
              positions_stakers cs pc_logs tr_logs (dpre @ d # dpost) wth_logs = Inr t \<longrightarrow>
              \<not> known pid t) \<and>
         (log_id w = Inr pid \<and> decode_word (data w) 0 = Inr removed \<longrightarrow>
            positions_dashboard pc_logs tr_logs dep_logs (wpre @ w # wpost) =
              positions_dashboard pc_logs tr_logs dep_logs (wpre @ wpost) \<and>
            positions_stakers cs pc_logs tr_logs dep_logs (wpre @ w # wpost) =
              positions_stakers cs pc_logs tr_logs dep_logs (wpre @ wpost)) \<and>
         (token_id x = Inr pid \<and> addr_from_topic_stakers cs (topics x ! 2) = Inr a \<longrightarrow>
            positions_dashboard pc_logs (tpre @ x # tpost) dep_logs wth_logs =
              positions_dashboard pc_logs (tpre @ tpost) dep_logs wth_logs \<and>
            positions_stakers cs pc_logs (tpre @ x # tpost) dep_logs wth_logs =
              positions_stakers cs pc_logs (tpre @ tpost) dep_logs wth_logs) \<and>
         (deposit_flow d = Inr r \<and> flow_rows (dpre @ dpost) wth_logs rew_i_logs rew_w_logs = Inr rows \<longrightarrow>
            net_flow r = scaled funds \<and>
            flow_rows (dpre @ d # dpost) wth_logs rew_i_logs rew_w_logs =
              Inr (take (length dpre) rows @ r # drop (length dpre) rows) \<and>
            (\<forall>flow. flow_df (take (length dpre) rows @ r # drop (length dpre) rows) = Inr flow \<longrightarrow>
                    r \<in> set flow))"
proof -
  note pc = assms(1)
  have 1: "positions_dashboard pc_logs tr_logs (dpre @ d # dpost) wth_logs =
      positions_dashboard pc_logs tr_logs (dpre @ dpost) wth_logs"
    using pc assms(2) by (rule dashboard_skip_deposit)
  have 2: "positions_stakers cs pc_logs tr_logs (dpre @ d # dpost) wth_logs =
      positions_stakers cs pc_logs tr_logs (dpre @ dpost) wth_logs"
    using pc assms(2,3,4) by (rule stakers_skip_deposit)
  have 3: "\<not> known pid t"
    if "positions_dashboard pc_logs tr_logs (dpre @ d # dpost) wth_logs = Inr t \<or>
        positions_stakers cs pc_logs tr_logs (dpre @ d # dpost) wth_logs = Inr t" for t
    using that dashboard_unknown[OF pc] stakers_unknown[OF pc] by blast
  have 4: "positions_dashboard pc_logs tr_logs dep_logs (wpre @ w # wpost) =
        positions_dashboard pc_logs tr_logs dep_logs (wpre @ wpost) \<and>
      positions_stakers cs pc_logs tr_logs dep_logs (wpre @ w # wpost) =
        positions_stakers cs pc_logs tr_logs dep_logs (wpre @ wpost)"
    if "log_id w = Inr pid \<and> decode_word (data w) 0 = Inr removed"
    using that dashboard_skip_withdrawal[OF pc, of w] stakers_skip_withdrawal[OF pc, of w removed]
    by blast
  have 5: "positions_dashboard pc_logs (tpre @ x # tpost) dep_logs wth_logs =
        positions_dashboard pc_logs (tpre @ tpost) dep_logs wth_logs \<and>
      positions_stakers cs pc_logs (tpre @ x # tpost) dep_logs wth_logs =
        positions_stakers cs pc_logs (tpre @ tpost) dep_logs wth_logs"
    if "token_id x = Inr pid \<and> addr_from_topic_stakers cs (topics x ! 2) = Inr a"
    using that dashboard_skip_transfer[OF pc, of x] stakers_skip_transfer[OF pc, of x cs a]
    by blast
  have 6: "net_flow r = scaled funds \<and>
      flow_rows (dpre @ d # dpost) wth_logs rew_i_logs rew_w_logs =
        Inr (take (length dpre) rows @ r # drop (length dpre) rows) \<and>
      (\<forall>flow. flow_df (take (length dpre) rows @ r # drop (length dpre) rows) = Inr flow \<longrightarrow>
              r \<in> set flow)"
    if "deposit_flow d = Inr r \<and> flow_rows (dpre @ dpost) wth_logs rew_i_logs rew_w_logs = Inr rows"
  proof -
    from that have r: "deposit_flow d = Inr r"
      and rows: "flow_rows (dpre @ dpost) wth_logs rew_i_logs rew_w_logs = Inr rows" by simp_all
    have "r \<in> set (take (length dpre) rows @ r # drop (length dpre) rows)" by simp
    then show ?thesis
      using deposit_flow_amount[OF r assms(3)] flow_rows_insert[OF r rows] flow_df_member
      by blast
  qed
  from 1 2 3 4 5 6 show ?thesis by blast
qed

theorem unknown_id_is_dropped_but_counted_witness:
  "positions_dashboard [created_1] [transfer_1] [deposit_1, deposit_99] [withdrawal_1] =
     positions_dashboard [created_1] [transfer_1] [deposit_1] [withdrawal_1] \<and>
   positions_stakers sample_checksum [created_1] [transfer_1] [deposit_1, deposit_99] [withdrawal_1] =
     positions_stakers sample_checksum [created_1] [transfer_1] [deposit_1] [withdrawal_1] \<and>
   (\<exists>t. positions_dashboard [created_1] [transfer_1] [deposit_1, deposit_99] [withdrawal_1] = Inr t \<and>
        map fst t = [1] \<and> \<not> known 99 t) \<and>
   positions_dashboard [created_1] [transfer_1] [deposit_1] [withdrawal_1, withdrawal_99] =
     positions_dashboard [created_1] [transfer_1] [deposit_1] [withdrawal_1] \<and>
   positions_dashboard [created_1] [transfer_1, transfer_99] [deposit_1] [withdrawal_1] =
     positions_dashboard [created_1] [transfer_1] [deposit_1] [withdrawal_1] \<and>
   map_sum id (map net_flow) (flow_rows [deposit_1, deposit_99] [withdrawal_1] [] []) =
     Inr [1000, 1000, - 400] \<and>
   map_sum id (map net_flow)
     (bind (flow_rows [deposit_1, deposit_99] [withdrawal_1] [] []) flow_df) =
     Inr [1000, - 400, 1000]"
proof -
  have pc: "Inr 99 \<notin> log_id ` set [created_1]"
  proof -
    have "log_id created_1 = Inr 1" by code_simp
    then show ?thesis by simp
  qed
  have d: "log_id deposit_99 = Inr 99" by code_simp
  have f: "decode_word (data deposit_99) 0 = Inr 1000000000000000000000" by code_simp
  have s: "decode_word (data deposit_99) 1 = Inr 1000000000000000000000" by code_simp
  have w: "log_id withdrawal_99 = Inr 99 \<and>
      decode_word (data withdrawal_99) 0 = Inr 400000000000000000000" by code_simp
  have x: "token_id transfer_99 = Inr 99" by code_simp
  have a: "addr_from_topic_stakers sample_checksum (topics transfer_99 ! 2) =
      Inr (''0x'' @ replicate 37 CHR ''0'' @ ''B0B'')" by code_simp
  have r: "deposit_flow deposit_99 =
      Inr \<lparr>block = 104, timestamp = 1694498880, event = ''Deposit'', amount = 1000,
           net_flow = 1000\<rparr>" by code_simp
  have rows: "flow_rows ([deposit_1] @ []) [withdrawal_1] [] [] =
      Inr [\<lparr>block = 101, timestamp = 1694498832, event = ''Deposit'', amount = 1000,
            net_flow = 1000\<rparr>,
           \<lparr>block = 103, timestamp = 1694498864, event = ''Withdrawal'', amount = 400,
            net_flow = - 400\<rparr>]" by code_simp
  have t: "positions_dashboard [created_1] [transfer_1] [deposit_1] [withdrawal_1] =
      Inr [(1, \<lparr>position_id = 1, expiry_ts = 1800000000, validator = [118, 49],
                owner = Some alice, net_deposited = 600, stake = 1000\<rparr>)]" by code_simp
  note inst = unknown_id_is_dropped_but_counted[OF pc d f s,
      where dpre = "[deposit_1]" and dpost = "[]" and tr_logs = "[transfer_1]"
        and wth_logs = "[withdrawal_1]" and cs = sample_checksum
        and w = withdrawal_99 and removed = 400000000000000000000
        and wpre = "[withdrawal_1]" and wpost = "[]" and dep_logs = "[deposit_1]"
        and x = transfer_99 and tpre = "[transfer_1]" and tpost = "[]"
        and a = "''0x'' @ replicate 37 CHR ''0'' @ ''B0B''"
        and r = "\<lparr>block = 104, timestamp = 1694498880, event = ''Deposit'', amount = 1000,
           net_flow = 1000\<rparr>"
        and rew_i_logs = "[]" and rew_w_logs = "[]"
        and rows = "[\<lparr>block = 101, timestamp = 1694498832, event = ''Deposit'', amount = 1000,
            net_flow = 1000\<rparr>,
           \<lparr>block = 103, timestamp = 1694498864, event = ''Withdrawal'', amount = 400,
            net_flow = - 400\<rparr>]"]
  from inst have 1: "positions_dashboard [created_1] [transfer_1] [deposit_1, deposit_99] [withdrawal_1] =
      positions_dashboard [created_1] [transfer_1] [deposit_1] [withdrawal_1]"
    and 2: "positions_stakers sample_checksum [created_1] [transfer_1] [deposit_1, deposit_99] [withdrawal_1] =
      positions_stakers sample_checksum [created_1] [transfer_1] [deposit_1] [withdrawal_1]"
    by simp_all
  from inst 1 t have 3: "\<not> known 99 [(1, \<lparr>position_id = 1, expiry_ts = 1800000000, validator = [118, 49],
                owner = Some alice, net_deposited = 600, stake = 1000\<rparr>)]"
    by simp
  from inst w have 4: "positions_dashboard [created_1] [transfer_1] [deposit_1] [withdrawal_1, withdrawal_99] =
      positions_dashboard [created_1] [transfer_1] [deposit_1] [withdrawal_1]"
    by simp
  from inst x a have 5: "positions_dashboard [created_1] [transfer_1, transfer_99] [deposit_1] [withdrawal_1] =
      positions_dashboard [created_1] [transfer_1] [deposit_1] [withdrawal_1]"
    by simp
  from inst r rows have 6: "flow_rows [deposit_1, deposit_99] [withdrawal_1] [] [] =
      Inr [\<lparr>block = 101, timestamp = 1694498832, event = ''Deposit'', amount = 1000,
            net_flow = 1000\<rparr>,
           \<lparr>block = 104, timestamp = 1694498880, event = ''Deposit'', amount = 1000,
            net_flow = 1000\<rparr>,
           \<lparr>block = 103, timestamp = 1694498864, event = ''Withdrawal'', amount = 400,
            net_flow = - 400\<rparr>]"
    by simp
  from 1 t 3 have "\<exists>t. positions_dashboard [created_1] [transfer_1] [deposit_1, deposit_99] [withdrawal_1] = Inr t \<and>
        map fst t = [1] \<and> \<not> known 99 t"
    by simp
  moreover have "map_sum id (map net_flow)
      (bind (flow_rows [deposit_1, deposit_99] [withdrawal_1] [] []) flow_df) =
      Inr [1000, - 400, 1000]"
    by code_simp
  ultimately show ?thesis using 1 2 4 5 6 by simp
qed

subsection \<open>A second PositionCreated log for the same id\<close>

lemma map_entry_commute:
  assumes "\<And>p. G (F p) = F (G p)"
  shows "AList.map_entry k G (AList.map_entry k' F t) = AList.map_entry k' F (AList.map_entry k G t)"
  by (induction t) (auto simp: assms)

lemma update_map_entry_commute:
  "k \<noteq> k' \<Longrightarrow> AList.update k v (AList.map_entry k' F t) = AList.map_entry k' F (AList.update k v t)"
  by (induction t) auto

lemma update_known:
  "known k t \<Longrightarrow> AList.update k v t = AList.map_entry k (\<lambda>p. v) t"
  by (induction t) (auto simp: known_def)

lemma map_entry_cong_set:
  "(\<And>p. (k, p) \<in> set t \<Longrightarrow> G p = G' p) \<Longrightarrow> AList.map_entry k G t = AList.map_entry k G' t"
  by (induction t) auto

text \<open>
  While the PositionCreated logs are read, every position in the table is as it was
  created: under its own id, without owner and without balance.
\<close>

lemma created_fresh:
  assumes "run (created mk) pc t = Inr t'"
    and "\<And>lg p. mk lg = Inr p \<Longrightarrow> owner p = None \<and> net_deposited p = 0 \<and> stake p = 0"
    and "\<forall>(k, p) \<in> set t. position_id p = k \<and> owner p = None \<and> net_deposited p = 0 \<and> stake p = 0"
  shows "\<forall>(k, p) \<in> set t'. position_id p = k \<and> owner p = None \<and> net_deposited p = 0 \<and> stake p = 0"
  using assms(1,3)
proof (induction pc arbitrary: t)
  case Nil
  then show ?case by simp
next
  case (Cons lg pc)
  from Cons.prems(1) obtain s where s: "created mk lg t = Inr s"
    and rs: "run (created mk) pc s = Inr t'"
    by (auto simp: bind_def split: sum.splits)
  from s obtain p where p: "mk lg = Inr p" and "s = AList.update (position_id p) p t"
    by (auto simp: created_def bind_def split: sum.splits)
  with rs have r: "run (created mk) pc (AList.update (position_id p) p t) = Inr t'" by simp
  have "set (AList.update (position_id p) p t) \<subseteq> insert (position_id p, p) (set t)"
    by (induction t) auto
  with Cons.prems(2) assms(2)[OF p]
  have "\<forall>(k, q) \<in> set (AList.update (position_id p) p t).
      position_id q = k \<and> owner q = None \<and> net_deposited q = 0 \<and> stake q = 0"
    by auto
  with Cons.IH[OF r] show ?case by simp
qed

text \<open>Storing a created position under an id that is present overwrites expiry and validator.\<close>

lemma created_again:
  assumes "mk dup = Inr q"
    and "owner q = None \<and> net_deposited q = 0 \<and> stake q = 0"
    and "known (position_id q) t"
    and "\<forall>(k, p) \<in> set t. position_id p = k \<and> owner p = None \<and> net_deposited p = 0 \<and> stake p = 0"
  shows "created mk dup t =
         Inr (AList.map_entry (position_id q)
                (\<lambda>p. p\<lparr>expiry_ts := expiry_ts q, validator := validator q\<rparr>) t)"
proof -
  have "AList.map_entry (position_id q) (\<lambda>p. q) t =
      AList.map_entry (position_id q) (\<lambda>p. p\<lparr>expiry_ts := expiry_ts q, validator := validator q\<rparr>) t"
  proof (rule map_entry_cong_set)
    fix p assume "(position_id q, p) \<in> set t"
    with assms(4) have "position_id p = position_id q \<and> owner p = None \<and>
        net_deposited p = 0 \<and> stake p = 0" by auto
    with assms(2) show "q = p\<lparr>expiry_ts := expiry_ts q, validator := validator q\<rparr>"
      by (intro position.equality) simp_all
  qed
  then show ?thesis using assms(1,3) by (simp add: created_def bind_def update_known)
qed

text \<open>Every later step does the same on a table with the overwritten fields.\<close>

lemma created_overwritten:
  assumes "\<And>p. mk lg = Inr p \<Longrightarrow> log_id lg = Inr (position_id p)" and "log_id lg \<noteq> Inr pid"
  shows "created mk lg (AList.map_entry pid F t) = map_sum id (AList.map_entry pid F) (created mk lg t)"
proof (cases "mk lg")
  case (Inl e)
  then show ?thesis by (simp add: created_def bind_def)
next
  case (Inr p)
  with assms have "position_id p \<noteq> pid" by auto
  with Inr show ?thesis by (simp add: created_def bind_def update_map_entry_commute)
qed

lemma transferred_overwritten:
  "transferred addr lg (AList.map_entry pid (\<lambda>p. p\<lparr>expiry_ts := e, validator := v\<rparr>) t) =
   map_sum id (AList.map_entry pid (\<lambda>p. p\<lparr>expiry_ts := e, validator := v\<rparr>)) (transferred addr lg t)"
  by (auto simp: transferred_def bind_def map_entry_commute split: sum.splits)

lemma deposited_dashboard_overwritten:
  "deposited_dashboard lg (AList.map_entry pid (\<lambda>p. p\<lparr>expiry_ts := e, validator := v\<rparr>) t) =
   map_sum id (AList.map_entry pid (\<lambda>p. p\<lparr>expiry_ts := e, validator := v\<rparr>)) (deposited_dashboard lg t)"
  by (auto simp: deposited_dashboard_def bind_def add_funds_def map_entry_commute split: sum.splits)

lemma withdrawn_dashboard_overwritten:
  "withdrawn_dashboard lg (AList.map_entry pid (\<lambda>p. p\<lparr>expiry_ts := e, validator := v\<rparr>) t) =
   map_sum id (AList.map_entry pid (\<lambda>p. p\<lparr>expiry_ts := e, validator := v\<rparr>)) (withdrawn_dashboard lg t)"
  by (auto simp: withdrawn_dashboard_def bind_def remove_funds_def map_entry_commute split: sum.splits)

lemma deposited_stakers_overwritten:
  "deposited_stakers lg (AList.map_entry pid (\<lambda>p. p\<lparr>expiry_ts := e, validator := v\<rparr>) t) =
   map_sum id (AList.map_entry pid (\<lambda>p. p\<lparr>expiry_ts := e, validator := v\<rparr>)) (deposited_stakers lg t)"
  by (auto simp: deposited_stakers_def bind_def add_funds_def map_entry_commute split: sum.splits)

lemma withdrawn_stakers_overwritten:
  "withdrawn_stakers lg (AList.map_entry pid (\<lambda>p. p\<lparr>expiry_ts := e, validator := v\<rparr>) t) =
   map_sum id (AList.map_entry pid (\<lambda>p. p\<lparr>expiry_ts := e, validator := v\<rparr>)) (withdrawn_stakers lg t)"
  by (auto simp: withdrawn_stakers_def bind_def remove_funds_def map_entry_commute split: sum.splits)

lemma run_overwritten:
  assumes "\<And>x s. x \<in> set xs \<Longrightarrow> step x (M s) = map_sum id M (step x s)"
  shows "run step xs (M t) = map_sum id M (run step xs t)"
  using assms
proof (induction xs arbitrary: t)
  case Nil
  then show ?case by simp
next
  case (Cons x xs)
  have hd: "step x (M t) = map_sum id M (step x t)" by (rule Cons.prems) simp
  have tl: "run step xs (M s) = map_sum id M (run step xs s)" for s
    by (rule Cons.IH) (simp add: Cons.prems)
  show ?case by (cases "step x t") (simp_all add: hd tl bind_def id_def)
qed

lemma bind_map_sum:
  "(\<And>x. f (M x) = map_sum id M' (g x)) \<Longrightarrow> bind (map_sum id M m) f = map_sum id M' (bind m g)"
  by (cases m) (simp_all add: bind_def)
lemma created_phase_duplicate:
  assumes mk_id: "\<And>lg p. mk lg = Inr p \<Longrightarrow> log_id lg = Inr (position_id p)"
    and mk_fresh: "\<And>lg p. mk lg = Inr p \<Longrightarrow> owner p = None \<and> net_deposited p = 0 \<and> stake p = 0"
    and dup: "mk dup = Inr q"
    and before: "Inr (position_id q) \<in> log_id ` set pc_before"
    and after: "Inr (position_id q) \<notin> log_id ` set pc_after"
  shows "run (created mk) (pc_before @ dup # pc_after) [] =
         map_sum id (AList.map_entry (position_id q)
                      (\<lambda>p. p\<lparr>expiry_ts := expiry_ts q, validator := validator q\<rparr>))
           (run (created mk) (pc_before @ pc_after) [])"
proof (cases "run (created mk) pc_before []")
  case (Inl e)
  then show ?thesis by (simp add: run_append bind_def)
next
  case (Inr t1)
  let ?M = "AList.map_entry (position_id q)
      (\<lambda>p. p\<lparr>expiry_ts := expiry_ts q, validator := validator q\<rparr>)"
  have k: "known (position_id q) t1"
    using run_created_known[OF Inr mk_id, of "position_id q"] before by simp
  have fr: "\<forall>(k, p) \<in> set t1. position_id p = k \<and> owner p = None \<and> net_deposited p = 0 \<and> stake p = 0"
    using created_fresh[OF Inr mk_fresh] by simp
  have c: "created mk dup t1 = Inr (?M t1)"
    using dup mk_fresh[OF dup] k fr by (rule created_again)
  have r: "run (created mk) pc_after (?M t1) = map_sum id ?M (run (created mk) pc_after t1)"
  proof (rule run_overwritten)
    fix x s assume "x \<in> set pc_after"
    with after have "log_id x \<noteq> Inr (position_id q)" by force
    with mk_id show "created mk x (?M s) = map_sum id ?M (created mk x s)"
      by (rule created_overwritten)
  qed
  show ?thesis using Inr c r by (simp add: run_append bind_def)
qed

lemma new_position_stakers_id:
  "new_position_stakers lg = Inr p \<Longrightarrow> log_id lg = Inr (position_id p)"
  by (rule new_position_id) (rule new_position_stakers_Inr)

lemma new_position_stakers_fresh:
  "new_position_stakers lg = Inr p \<Longrightarrow> owner p = None \<and> net_deposited p = 0 \<and> stake p = 0"
  by (rule new_position_fresh) (rule new_position_stakers_Inr)

lemma dashboard_duplicate:
  assumes "new_position dup = Inr q"
    and "Inr (position_id q) \<in> log_id ` set pc_before"
    and "Inr (position_id q) \<notin> log_id ` set pc_after"
  shows "positions_dashboard (pc_before @ dup # pc_after) tr dep wth =
         map_sum id (AList.map_entry (position_id q)
                      (\<lambda>p. p\<lparr>expiry_ts := expiry_ts q, validator := validator q\<rparr>))
           (positions_dashboard (pc_before @ pc_after) tr dep wth)"
proof -
  let ?M = "AList.map_entry (position_id q)
      (\<lambda>p. p\<lparr>expiry_ts := expiry_ts q, validator := validator q\<rparr>)"
  have w: "run withdrawn_dashboard wth (?M s) = map_sum id ?M (run withdrawn_dashboard wth s)" for s
    by (rule run_overwritten) (rule withdrawn_dashboard_overwritten)
  have d: "bind (run deposited_dashboard dep (?M s)) (run withdrawn_dashboard wth) =
      map_sum id ?M (bind (run deposited_dashboard dep s) (run withdrawn_dashboard wth))" for s
    unfolding run_overwritten[of dep deposited_dashboard ?M, OF deposited_dashboard_overwritten]
    by (rule bind_map_sum) (rule w)
  have t: "bind (run (transferred addr_from_topic_dashboard) tr (?M s))
        (\<lambda>p2. bind (run deposited_dashboard dep p2) (run withdrawn_dashboard wth)) =
      map_sum id ?M (bind (run (transferred addr_from_topic_dashboard) tr s)
        (\<lambda>p2. bind (run deposited_dashboard dep p2) (run withdrawn_dashboard wth)))" for s
    unfolding run_overwritten[of tr "transferred addr_from_topic_dashboard" ?M,
        OF transferred_overwritten]
    by (rule bind_map_sum) (rule d)
  have c: "run (created new_position) (pc_before @ dup # pc_after) [] =
      map_sum id ?M (run (created new_position) (pc_before @ pc_after) [])"
    using new_position_id new_position_fresh assms by (rule created_phase_duplicate)
  show ?thesis
    unfolding positions_dashboard_def c
    by (rule bind_map_sum) (rule t)
qed

lemma stakers_duplicate:
  assumes "new_position_stakers dup = Inr q"
    and "Inr (position_id q) \<in> log_id ` set pc_before"
    and "Inr (position_id q) \<notin> log_id ` set pc_after"
  shows "positions_stakers cs (pc_before @ dup # pc_after) tr dep wth =
         map_sum id (AList.map_entry (position_id q)
                      (\<lambda>p. p\<lparr>expiry_ts := expiry_ts q, validator := validator q\<rparr>))
           (positions_stakers cs (pc_before @ pc_after) tr dep wth)"
proof -
  let ?M = "AList.map_entry (position_id q)
      (\<lambda>p. p\<lparr>expiry_ts := expiry_ts q, validator := validator q\<rparr>)"
  have w: "run withdrawn_stakers wth (?M s) = map_sum id ?M (run withdrawn_stakers wth s)" for s
    by (rule run_overwritten) (rule withdrawn_stakers_overwritten)
  have d: "bind (run deposited_stakers dep (?M s)) (run withdrawn_stakers wth) =
      map_sum id ?M (bind (run deposited_stakers dep s) (run withdrawn_stakers wth))" for s
    unfolding run_overwritten[of dep deposited_stakers ?M, OF deposited_stakers_overwritten]
    by (rule bind_map_sum) (rule w)
  have t: "bind (run (transferred (addr_from_topic_stakers cs)) tr (?M s))
        (\<lambda>p2. bind (run deposited_stakers dep p2) (run withdrawn_stakers wth)) =
      map_sum id ?M (bind (run (transferred (addr_from_topic_stakers cs)) tr s)
        (\<lambda>p2. bind (run deposited_stakers dep p2) (run withdrawn_stakers wth)))" for s
    unfolding run_overwritten[of tr "transferred (addr_from_topic_stakers cs)" ?M,
        OF transferred_overwritten]
    by (rule bind_map_sum) (rule d)
  have c: "run (created new_position_stakers) (pc_before @ dup # pc_after) [] =
      map_sum id ?M (run (created new_position_stakers) (pc_before @ pc_after) [])"
    using new_position_stakers_id new_position_stakers_fresh assms
    by (rule created_phase_duplicate)
  show ?thesis
    unfolding positions_stakers_def c
    by (rule bind_map_sum) (rule t)
qed

text \<open>
  C5. Let a PositionCreated log \<open>dup\<close> decode to the position \<open>q\<close>, let an earlier
  PositionCreated log carry the same id and no later one. Then no error comes from
  \<open>dup\<close>, and the positions dict is the one obtained without \<open>dup\<close> where the position
  of this id has the expiry and the validator of \<open>dup\<close>: its owner, net deposit and
  stake, and every other position, are as they are accumulated without \<open>dup\<close>. This
  holds for \<open>load_data\<close> and for \<open>main\<close> of \<^verbatim>\<open>enso_top_stakers.py\<close>.
\<close>

theorem duplicate_creation_overwrites:
  assumes "Inr (position_id q) \<in> log_id ` set pc_before"
    and "Inr (position_id q) \<notin> log_id ` set pc_after"
  shows "(new_position dup = Inr q \<longrightarrow>
            positions_dashboard (pc_before @ dup # pc_after) tr_logs dep_logs wth_logs =
            map_sum id (AList.map_entry (position_id q)
                         (\<lambda>p. p\<lparr>expiry_ts := expiry_ts q, validator := validator q\<rparr>))
              (positions_dashboard (pc_before @ pc_after) tr_logs dep_logs wth_logs)) \<and>
         (new_position_stakers dup = Inr q \<longrightarrow>
            positions_stakers cs (pc_before @ dup # pc_after) tr_logs dep_logs wth_logs =
            map_sum id (AList.map_entry (position_id q)
                         (\<lambda>p. p\<lparr>expiry_ts := expiry_ts q, validator := validator q\<rparr>))
              (positions_stakers cs (pc_before @ pc_after) tr_logs dep_logs wth_logs))"
  using dashboard_duplicate[OF _ assms] stakers_duplicate[OF _ assms] by blast

theorem duplicate_creation_overwrites_witness:
  "positions_dashboard [created_1, created_1_again] [transfer_1] [deposit_1] [withdrawal_1] =
     Inr [(1, \<lparr>position_id = 1, expiry_ts = 1900000000, validator = [118, 50],
               owner = Some alice, net_deposited = 600, stake = 1000\<rparr>)] \<and>
   positions_stakers sample_checksum [created_1, created_1_again] [transfer_1] [deposit_1]
       [withdrawal_1] =
     Inr [(1, \<lparr>position_id = 1, expiry_ts = 1900000000, validator = [118, 50],
               owner = Some (''0x'' @ replicate 35 CHR ''0'' @ ''A11CE''),
               net_deposited = 600, stake = 1000\<rparr>)]"
proof -
  let ?q = "\<lparr>position_id = 1, expiry_ts = 1900000000, validator = [118, 50], owner = None,
      net_deposited = 0, stake = 0\<rparr>"
  have q: "new_position created_1_again = Inr ?q" by code_simp
  have qs: "new_position_stakers created_1_again = Inr ?q" by code_simp
  have "log_id created_1 = Inr 1" by code_simp
  then have b: "Inr (position_id ?q) \<in> log_id ` set [created_1]"
    and a: "Inr (position_id ?q) \<notin> log_id ` set []" by simp_all
  have d: "positions_dashboard ([created_1] @ []) [transfer_1] [deposit_1] [withdrawal_1] =
      Inr [(1, \<lparr>position_id = 1, expiry_ts = 1800000000, validator = [118, 49],
                owner = Some alice, net_deposited = 600, stake = 1000\<rparr>)]" by code_simp
  have s: "positions_stakers sample_checksum ([created_1] @ []) [transfer_1] [deposit_1]
        [withdrawal_1] =
      Inr [(1, \<lparr>position_id = 1, expiry_ts = 1800000000, validator = [118, 49],
                owner = Some (''0x'' @ replicate 35 CHR ''0'' @ ''A11CE''),
                net_deposited = 600, stake = 1000\<rparr>)]" by code_simp
  from duplicate_creation_overwrites[OF b a, of created_1_again "[transfer_1]" "[deposit_1]"
      "[withdrawal_1]" sample_checksum] q qs d s
  show ?thesis by simp
qed

subsection \<open>The two projections\<close>

lemma tables_agree_known: "tables_agree cs ts td \<Longrightarrow> known pid ts = known pid td"
proof -
  assume "tables_agree cs ts td"
  then have "map fst ts = map fst td"
    unfolding tables_agree_def by (induction rule: list_all2_induct) auto
  then show ?thesis by (simp add: known_def)
qed

lemma tables_agree_update:
  "tables_agree cs ts td \<Longrightarrow> agree cs p q \<Longrightarrow>
   tables_agree cs (AList.update k p ts) (AList.update k q td)"
  unfolding tables_agree_def by (induction rule: list_all2_induct) auto

lemma tables_agree_map_entry:
  assumes "tables_agree cs ts td" and "\<And>p q. agree cs p q \<Longrightarrow> agree cs (G p) (G' q)"
  shows "tables_agree cs (AList.map_entry k G ts) (AList.map_entry k G' td)"
  using assms(1) unfolding tables_agree_def
  by (induction rule: list_all2_induct) (auto simp: assms(2))

lemma agree_fresh: "owner p = None \<Longrightarrow> agree cs p p"
  by (simp add: agree_def)

lemma agree_owner:
  "agree cs p q \<Longrightarrow> cs b = Inr a \<Longrightarrow> agree cs (p\<lparr>owner := Some a\<rparr>) (q\<lparr>owner := Some b\<rparr>)"
  by (simp add: agree_def)

lemma agree_add_funds: "agree cs p q \<Longrightarrow> agree cs (add_funds f s p) (add_funds f s q)"
  by (simp add: agree_def add_funds_def)

lemma agree_remove_funds: "agree cs p q \<Longrightarrow> agree cs (remove_funds f p) (remove_funds f q)"
  by (simp add: agree_def remove_funds_def)

text \<open>A loop of one script follows the loop of the other, step by step.\<close>

lemma run_sim:
  assumes "\<And>x s u s'. x \<in> set xs \<Longrightarrow> stepA x s = Inr s' \<Longrightarrow> R s u \<Longrightarrow>
             \<exists>u'. stepB x u = Inr u' \<and> R s' u'"
    and "run stepA xs s = Inr s'" and "R s u"
  shows "\<exists>u'. run stepB xs u = Inr u' \<and> R s' u'"
  using assms
proof (induction xs arbitrary: s u)
  case Nil
  then show ?case by simp
next
  case (Cons x xs)
  from Cons.prems(2) obtain s1 where s1: "stepA x s = Inr s1" and r: "run stepA xs s1 = Inr s'"
    by (auto simp: bind_def split: sum.splits)
  have "x \<in> set (x # xs)" by simp
  from Cons.prems(1)[OF this s1 Cons.prems(3)] obtain u1 where
    u1: "stepB x u = Inr u1" and R1: "R s1 u1" by blast
  have "\<exists>u'. run stepB xs u1 = Inr u' \<and> R s' u'"
  proof (rule Cons.IH[OF _ r R1])
    fix y a b a'
    assume "y \<in> set xs" and ab: "stepA y a = Inr a'" "R a b"
    then have "y \<in> set (x # xs)" by simp
    then show "\<exists>b'. stepB y b = Inr b' \<and> R a' b'" using ab by (rule Cons.prems(1))
  qed
  with u1 show ?case by (simp add: bind_def)
qed

text \<open>From \<open>main\<close> to \<open>load_data\<close>.\<close>

lemma created_sim:
  assumes "created new_position_stakers lg ts = Inr ts'" and "tables_agree cs ts td"
  shows "\<exists>td'. created new_position lg td = Inr td' \<and> tables_agree cs ts' td'"
proof -
  from assms(1) obtain p where p: "new_position_stakers lg = Inr p"
    and ts': "ts' = AList.update (position_id p) p ts"
    by (auto simp: created_def bind_def split: sum.splits)
  have "new_position lg = Inr p" using p by (rule new_position_stakers_Inr)
  moreover have "agree cs p p" using new_position_stakers_fresh[OF p] by (simp add: agree_fresh)
  ultimately show ?thesis
    using ts' tables_agree_update[OF assms(2)] by (simp add: created_def bind_def)
qed

lemma transferred_sim:
  assumes "transferred (addr_from_topic_stakers cs) lg ts = Inr ts'" and "tables_agree cs ts td"
  shows "\<exists>td'. transferred addr_from_topic_dashboard lg td = Inr td' \<and> tables_agree cs ts' td'"
proof -
  from assms(1) obtain t2 a t3 tok where t2: "topic lg 2 = Inr t2"
    and a: "cs (''0x'' @ last40 t2) = Inr a" and t3: "topic lg 3 = Inr t3" and tok: "h t3 = Inr tok"
    and ts': "ts' = (if known tok ts
        then AList.map_entry tok (\<lambda>p. p\<lparr>owner := Some a\<rparr>) ts else ts)"
    by (auto simp: transferred_def addr_from_topic_stakers_def bind_def split: sum.splits)
  have k: "known tok ts = known tok td" using assms(2) by (rule tables_agree_known)
  have "tables_agree cs (AList.map_entry tok (\<lambda>p. p\<lparr>owner := Some a\<rparr>) ts)
      (AList.map_entry tok (\<lambda>p. p\<lparr>owner := Some (''0x'' @ last40 t2)\<rparr>) td)"
    using assms(2) by (rule tables_agree_map_entry) (rule agree_owner[of cs _ _ "''0x'' @ last40 t2" a, OF _ a])
  then show ?thesis
    using t2 t3 tok ts' k assms(2)
    by (simp add: transferred_def addr_from_topic_dashboard_def bind_def)
qed

lemma deposited_sim:
  assumes "deposited_stakers lg ts = Inr ts'" and "tables_agree cs ts td"
  shows "\<exists>td'. deposited_dashboard lg td = Inr td' \<and> tables_agree cs ts' td'"
proof -
  from assms(1) obtain t pid f s where t: "topic lg 1 = Inr t" and pid: "h t = Inr pid"
    and f: "decode_word (data lg) 0 = Inr f" and s: "decode_word (data lg) 1 = Inr s"
    and ts': "ts' = (if known pid ts then AList.map_entry pid (add_funds f s) ts else ts)"
    by (auto simp: deposited_stakers_def bind_def split: sum.splits)
  have k: "known pid ts = known pid td" using assms(2) by (rule tables_agree_known)
  have "tables_agree cs (AList.map_entry pid (add_funds f s) ts)
      (AList.map_entry pid (add_funds f s) td)"
    using assms(2) by (rule tables_agree_map_entry) (rule agree_add_funds)
  then show ?thesis
    using t pid f s ts' k assms(2) by (simp add: deposited_dashboard_def bind_def)
qed

lemma withdrawn_sim:
  assumes "withdrawn_stakers lg ts = Inr ts'" and "tables_agree cs ts td"
  shows "\<exists>td'. withdrawn_dashboard lg td = Inr td' \<and> tables_agree cs ts' td'"
proof -
  from assms(1) obtain t pid f where t: "topic lg 1 = Inr t" and pid: "h t = Inr pid"
    and f: "decode_word (data lg) 0 = Inr f"
    and ts': "ts' = (if known pid ts then AList.map_entry pid (remove_funds f) ts else ts)"
    by (auto simp: withdrawn_stakers_def bind_def split: sum.splits)
  have k: "known pid ts = known pid td" using assms(2) by (rule tables_agree_known)
  have "tables_agree cs (AList.map_entry pid (remove_funds f) ts)
      (AList.map_entry pid (remove_funds f) td)"
    using assms(2) by (rule tables_agree_map_entry) (rule agree_remove_funds)
  then show ?thesis
    using t pid f ts' k assms(2) by (simp add: withdrawn_dashboard_def bind_def)
qed

lemma stakers_to_dashboard:
  assumes "positions_stakers cs pc tr dep wth = Inr ts"
  shows "\<exists>td. positions_dashboard pc tr dep wth = Inr td \<and> tables_agree cs ts td"
proof -
  from assms obtain s1 s2 s3 where s1: "run (created new_position_stakers) pc [] = Inr s1"
    and s2: "run (transferred (addr_from_topic_stakers cs)) tr s1 = Inr s2"
    and s3: "run deposited_stakers dep s2 = Inr s3"
    and s4: "run withdrawn_stakers wth s3 = Inr ts"
    by (auto simp: positions_stakers_def bind_def split: sum.splits)
  have e: "tables_agree cs [] []" by (simp add: tables_agree_def)
  have "\<exists>u'. run (created new_position) pc [] = Inr u' \<and> tables_agree cs s1 u'"
  proof (rule run_sim[where stepA = "created new_position_stakers" and R = "tables_agree cs",
        OF _ s1 e])
    fix x s u s'
    assume "created new_position_stakers x s = Inr s'" "tables_agree cs s u"
    then show "\<exists>u'. created new_position x u = Inr u' \<and> tables_agree cs s' u'"
      by (rule created_sim)
  qed
  then obtain u1 where u1: "run (created new_position) pc [] = Inr u1"
    and r1: "tables_agree cs s1 u1" by blast
  have "\<exists>u'. run (transferred addr_from_topic_dashboard) tr u1 = Inr u' \<and> tables_agree cs s2 u'"
  proof (rule run_sim[where stepA = "transferred (addr_from_topic_stakers cs)"
        and R = "tables_agree cs", OF _ s2 r1])
    fix x s u s'
    assume "transferred (addr_from_topic_stakers cs) x s = Inr s'" "tables_agree cs s u"
    then show "\<exists>u'. transferred addr_from_topic_dashboard x u = Inr u' \<and> tables_agree cs s' u'"
      by (rule transferred_sim)
  qed
  then obtain u2 where u2: "run (transferred addr_from_topic_dashboard) tr u1 = Inr u2"
    and r2: "tables_agree cs s2 u2" by blast
  have "\<exists>u'. run deposited_dashboard dep u2 = Inr u' \<and> tables_agree cs s3 u'"
  proof (rule run_sim[where stepA = deposited_stakers and R = "tables_agree cs", OF _ s3 r2])
    fix x s u s'
    assume "deposited_stakers x s = Inr s'" "tables_agree cs s u"
    then show "\<exists>u'. deposited_dashboard x u = Inr u' \<and> tables_agree cs s' u'"
      by (rule deposited_sim)
  qed
  then obtain u3 where u3: "run deposited_dashboard dep u2 = Inr u3"
    and r3: "tables_agree cs s3 u3" by blast
  have "\<exists>u'. run withdrawn_dashboard wth u3 = Inr u' \<and> tables_agree cs ts u'"
  proof (rule run_sim[where stepA = withdrawn_stakers and R = "tables_agree cs", OF _ s4 r3])
    fix x s u s'
    assume "withdrawn_stakers x s = Inr s'" "tables_agree cs s u"
    then show "\<exists>u'. withdrawn_dashboard x u = Inr u' \<and> tables_agree cs s' u'"
      by (rule withdrawn_sim)
  qed
  then obtain u4 where u4: "run withdrawn_dashboard wth u3 = Inr u4"
    and r4: "tables_agree cs ts u4" by blast
  from u1 u2 u3 u4 r4 show ?thesis by (simp add: positions_dashboard_def bind_def)
qed
text \<open>From \<open>load_data\<close> to \<open>main\<close>, on logs that \<open>main\<close> accepts.\<close>

lemma created_back:
  assumes "created new_position lg td = Inr td'" and "tables_agree cs ts td"
    and "case new_position lg of Inr p \<Rightarrow> fromtimestamp_ok (expiry_ts p) | Inl e \<Rightarrow> True"
  shows "\<exists>ts'. created new_position_stakers lg ts = Inr ts' \<and> tables_agree cs ts' td'"
proof -
  from assms(1) obtain p where p: "new_position lg = Inr p"
    and td': "td' = AList.update (position_id p) p td"
    by (auto simp: created_def bind_def split: sum.splits)
  have "new_position_stakers lg = Inr p"
    using p assms(3) by (simp add: new_position_stakers_def bind_def)
  moreover have "agree cs p p" using new_position_fresh[OF p] by (simp add: agree_fresh)
  ultimately show ?thesis
    using td' tables_agree_update[OF assms(2)] by (simp add: created_def bind_def)
qed

lemma transferred_back:
  assumes "transferred addr_from_topic_dashboard lg td = Inr td'" and "tables_agree cs ts td"
    and "case topic lg 2 of Inr t \<Rightarrow> \<not> isl (cs (''0x'' @ last40 t)) | Inl e \<Rightarrow> True"
  shows "\<exists>ts'. transferred (addr_from_topic_stakers cs) lg ts = Inr ts' \<and> tables_agree cs ts' td'"
proof -
  from assms(1) obtain t2 t3 tok where t2: "topic lg 2 = Inr t2"
    and t3: "topic lg 3 = Inr t3" and tok: "h t3 = Inr tok"
    and td': "td' = (if known tok td
        then AList.map_entry tok (\<lambda>p. p\<lparr>owner := Some (''0x'' @ last40 t2)\<rparr>) td else td)"
    by (auto simp: transferred_def addr_from_topic_dashboard_def bind_def split: sum.splits)
  from assms(3) t2 obtain a where a: "cs (''0x'' @ last40 t2) = Inr a"
    by (cases "cs (''0x'' @ last40 t2)") auto
  have k: "known tok ts = known tok td" using assms(2) by (rule tables_agree_known)
  have "tables_agree cs (AList.map_entry tok (\<lambda>p. p\<lparr>owner := Some a\<rparr>) ts)
      (AList.map_entry tok (\<lambda>p. p\<lparr>owner := Some (''0x'' @ last40 t2)\<rparr>) td)"
    using assms(2)
    by (rule tables_agree_map_entry) (rule agree_owner[of cs _ _ "''0x'' @ last40 t2" a, OF _ a])
  then show ?thesis
    using t2 t3 tok td' k a assms(2)
    by (simp add: transferred_def addr_from_topic_stakers_def bind_def)
qed

lemma deposited_back:
  assumes "deposited_dashboard lg td = Inr td'" and "tables_agree cs ts td"
    and "\<not> isl (decode_word (data lg) 0) \<and> \<not> isl (decode_word (data lg) 1)"
  shows "\<exists>ts'. deposited_stakers lg ts = Inr ts' \<and> tables_agree cs ts' td'"
proof -
  from assms(3) obtain f s where f: "decode_word (data lg) 0 = Inr f"
    and s: "decode_word (data lg) 1 = Inr s"
    by (cases "decode_word (data lg) 0"; cases "decode_word (data lg) 1") auto
  from assms(1) f s obtain t pid where t: "topic lg 1 = Inr t" and pid: "h t = Inr pid"
    and td': "td' = (if known pid td then AList.map_entry pid (add_funds f s) td else td)"
    by (auto simp: deposited_dashboard_def bind_def split: sum.splits if_splits)
  have k: "known pid ts = known pid td" using assms(2) by (rule tables_agree_known)
  have "tables_agree cs (AList.map_entry pid (add_funds f s) ts)
      (AList.map_entry pid (add_funds f s) td)"
    using assms(2) by (rule tables_agree_map_entry) (rule agree_add_funds)
  then show ?thesis
    using t pid f s td' k assms(2) by (simp add: deposited_stakers_def bind_def)
qed

lemma withdrawn_back:
  assumes "withdrawn_dashboard lg td = Inr td'" and "tables_agree cs ts td"
    and "\<not> isl (decode_word (data lg) 0)"
  shows "\<exists>ts'. withdrawn_stakers lg ts = Inr ts' \<and> tables_agree cs ts' td'"
proof -
  from assms(3) obtain f where f: "decode_word (data lg) 0 = Inr f"
    by (cases "decode_word (data lg) 0") auto
  from assms(1) f obtain t pid where t: "topic lg 1 = Inr t" and pid: "h t = Inr pid"
    and td': "td' = (if known pid td then AList.map_entry pid (remove_funds f) td else td)"
    by (auto simp: withdrawn_dashboard_def bind_def split: sum.splits if_splits)
  have k: "known pid ts = known pid td" using assms(2) by (rule tables_agree_known)
  have "tables_agree cs (AList.map_entry pid (remove_funds f) ts)
      (AList.map_entry pid (remove_funds f) td)"
    using assms(2) by (rule tables_agree_map_entry) (rule agree_remove_funds)
  then show ?thesis
    using t pid f td' k assms(2) by (simp add: withdrawn_stakers_def bind_def)
qed

lemma dashboard_to_stakers:
  assumes "positions_dashboard pc tr dep wth = Inr td" and acc: "stakers_accepts cs pc tr dep wth"
  shows "\<exists>ts. positions_stakers cs pc tr dep wth = Inr ts \<and> tables_agree cs ts td"
proof -
  let ?R = "\<lambda>u s. tables_agree cs s u"
  from assms(1) obtain u1 u2 u3 where u1: "run (created new_position) pc [] = Inr u1"
    and u2: "run (transferred addr_from_topic_dashboard) tr u1 = Inr u2"
    and u3: "run deposited_dashboard dep u2 = Inr u3"
    and u4: "run withdrawn_dashboard wth u3 = Inr td"
    by (auto simp: positions_dashboard_def bind_def split: sum.splits)
  from acc have a1: "\<forall>lg \<in> set pc. case new_position lg of
        Inr p \<Rightarrow> fromtimestamp_ok (expiry_ts p) | Inl e \<Rightarrow> True"
    and a2: "\<forall>lg \<in> set tr. case topic lg 2 of
        Inr t \<Rightarrow> \<not> isl (cs (''0x'' @ last40 t)) | Inl e \<Rightarrow> True"
    and a3: "\<forall>lg \<in> set dep. \<not> isl (decode_word (data lg) 0) \<and> \<not> isl (decode_word (data lg) 1)"
    and a4: "\<forall>lg \<in> set wth. \<not> isl (decode_word (data lg) 0)"
    by (simp_all add: stakers_accepts_def list_all_iff)
  have e: "?R [] []" by (simp add: tables_agree_def)
  have "\<exists>s'. run (created new_position_stakers) pc [] = Inr s' \<and> ?R u1 s'"
  proof (rule run_sim[where stepA = "created new_position" and R = ?R, OF _ u1 e])
    fix x u s u'
    assume "x \<in> set pc" and s: "created new_position x u = Inr u'" "tables_agree cs s u"
    with a1 have "case new_position x of Inr p \<Rightarrow> fromtimestamp_ok (expiry_ts p) | Inl e \<Rightarrow> True"
      by blast
    with s show "\<exists>s'. created new_position_stakers x s = Inr s' \<and> tables_agree cs s' u'"
      by (rule created_back)
  qed
  then obtain s1 where s1: "run (created new_position_stakers) pc [] = Inr s1"
    and r1: "tables_agree cs s1 u1" by blast
  have "\<exists>s'. run (transferred (addr_from_topic_stakers cs)) tr s1 = Inr s' \<and> ?R u2 s'"
  proof (rule run_sim[where stepA = "transferred addr_from_topic_dashboard" and R = ?R,
        OF _ u2 r1])
    fix x u s u'
    assume "x \<in> set tr"
      and s: "transferred addr_from_topic_dashboard x u = Inr u'" "tables_agree cs s u"
    with a2 have "case topic x 2 of Inr t \<Rightarrow> \<not> isl (cs (''0x'' @ last40 t)) | Inl e \<Rightarrow> True"
      by blast
    with s show "\<exists>s'. transferred (addr_from_topic_stakers cs) x s = Inr s' \<and>
        tables_agree cs s' u'"
      by (rule transferred_back)
  qed
  then obtain s2 where s2: "run (transferred (addr_from_topic_stakers cs)) tr s1 = Inr s2"
    and r2: "tables_agree cs s2 u2" by blast
  have "\<exists>s'. run deposited_stakers dep s2 = Inr s' \<and> ?R u3 s'"
  proof (rule run_sim[where stepA = deposited_dashboard and R = ?R, OF _ u3 r2])
    fix x u s u'
    assume "x \<in> set dep" and s: "deposited_dashboard x u = Inr u'" "tables_agree cs s u"
    with a3 have "\<not> isl (decode_word (data x) 0) \<and> \<not> isl (decode_word (data x) 1)" by blast
    with s show "\<exists>s'. deposited_stakers x s = Inr s' \<and> tables_agree cs s' u'"
      by (rule deposited_back)
  qed
  then obtain s3 where s3: "run deposited_stakers dep s2 = Inr s3"
    and r3: "tables_agree cs s3 u3" by blast
  have "\<exists>s'. run withdrawn_stakers wth s3 = Inr s' \<and> ?R td s'"
  proof (rule run_sim[where stepA = withdrawn_dashboard and R = ?R, OF _ u4 r3])
    fix x u s u'
    assume "x \<in> set wth" and s: "withdrawn_dashboard x u = Inr u'" "tables_agree cs s u"
    with a4 have "\<not> isl (decode_word (data x) 0)" by blast
    with s show "\<exists>s'. withdrawn_stakers x s = Inr s' \<and> tables_agree cs s' u'"
      by (rule withdrawn_back)
  qed
  then obtain s4 where s4: "run withdrawn_stakers wth s3 = Inr s4"
    and r4: "tables_agree cs s4 td" by blast
  from s1 s2 s3 s4 r4 show ?thesis by (simp add: positions_stakers_def bind_def)
qed

text \<open>
  C8, as stated, fails: the two scripts differ in more than the form of the owner.
  \<open>main\<close> of \<^verbatim>\<open>enso_top_stakers.py\<close> decodes both words of a deposit before it looks
  the position up, and formats the expiry date when it stores a new position;
  \<open>load_data\<close> does neither. On a deposit for an unknown position whose payload has one
  word, and on an expiry beyond the year 9999, \<open>main\<close> raises and has no table, while
  \<open>load_data\<close> builds its positions dict.
\<close>

theorem stakers_raises_where_dashboard_builds:
  "positions_stakers sample_checksum [created_1] [] [short_deposit_99] [] = Inl ValueError \<and>
   positions_dashboard [created_1] [] [short_deposit_99] [] =
     Inr [(1, \<lparr>position_id = 1, expiry_ts = 1800000000, validator = [118, 49],
               owner = None, net_deposited = 0, stake = 0\<rparr>)] \<and>
   positions_stakers sample_checksum [created_forever] [] [] [] = Inl DateRangeError \<and>
   positions_dashboard [created_forever] [] [] [] =
     Inr [(2, \<lparr>position_id = 2, expiry_ts = 18446744073709551615, validator = [118, 49],
               owner = None, net_deposited = 0, stake = 0\<rparr>)]"
  by code_simp

text \<open>
  C8, amended. On the same logs of the four event kinds, whenever \<open>main\<close> of
  \<^verbatim>\<open>enso_top_stakers.py\<close> builds its positions dict, \<open>load_data\<close> builds one too, and
  whenever \<open>load_data\<close> builds one from logs that \<open>main\<close> accepts (every expiry within
  the range of \<^verbatim>\<open>datetime\<close>, every address of a Transfer accepted by
  \<^verbatim>\<open>to_checksum_address\<close>, every payload of a deposit or withdrawal decodable), \<open>main\<close>
  builds one too; the two dicts have the same ids in the same order and agree on
  expiry, validator, net deposit and stake of every position, and the owner in \<open>main\<close>
  is the checksummed form of the owner in \<open>load_data\<close>.
\<close>

theorem projections_agree:
  "(positions_stakers cs pc_logs tr_logs dep_logs wth_logs = Inr ts \<longrightarrow>
      (\<exists>td. positions_dashboard pc_logs tr_logs dep_logs wth_logs = Inr td \<and>
            tables_agree cs ts td)) \<and>
   (positions_dashboard pc_logs tr_logs dep_logs wth_logs = Inr td \<and>
    stakers_accepts cs pc_logs tr_logs dep_logs wth_logs \<longrightarrow>
      (\<exists>ts. positions_stakers cs pc_logs tr_logs dep_logs wth_logs = Inr ts \<and>
            tables_agree cs ts td))"
  using stakers_to_dashboard[of cs pc_logs tr_logs dep_logs wth_logs ts]
    dashboard_to_stakers[of pc_logs tr_logs dep_logs wth_logs td cs]
  by blast

theorem projections_agree_witness:
  "\<exists>ts td.
     positions_stakers sample_checksum [created_1] [transfer_1] [deposit_1, deposit_99]
       [withdrawal_1] = Inr ts \<and>
     positions_dashboard [created_1] [transfer_1] [deposit_1, deposit_99] [withdrawal_1] = Inr td \<and>
     stakers_accepts sample_checksum [created_1] [transfer_1] [deposit_1, deposit_99]
       [withdrawal_1] \<and>
     tables_agree sample_checksum ts td \<and>
     map fst ts = [1] \<and>
     map (net_deposited \<circ> snd) td = [600] \<and>
     map (owner \<circ> snd) ts = [Some (''0x'' @ replicate 35 CHR ''0'' @ ''A11CE'')] \<and>
     map (owner \<circ> snd) td = [Some alice]"
proof -
  let ?ts = "[(1, \<lparr>position_id = 1, expiry_ts = 1800000000, validator = [118, 49],
      owner = Some (''0x'' @ replicate 35 CHR ''0'' @ ''A11CE''),
      net_deposited = 600, stake = 1000\<rparr>)]"
  let ?td = "[(1, \<lparr>position_id = 1, expiry_ts = 1800000000, validator = [118, 49],
      owner = Some alice, net_deposited = 600, stake = 1000\<rparr>)]"
  have s: "positions_stakers sample_checksum [created_1] [transfer_1] [deposit_1, deposit_99]
      [withdrawal_1] = Inr ?ts" by code_simp
  have d: "positions_dashboard [created_1] [transfer_1] [deposit_1, deposit_99] [withdrawal_1] =
      Inr ?td" by code_simp
  have a: "stakers_accepts sample_checksum [created_1] [transfer_1] [deposit_1, deposit_99]
      [withdrawal_1]" by code_simp
  from projections_agree[of sample_checksum "[created_1]" "[transfer_1]"
      "[deposit_1, deposit_99]" "[withdrawal_1]" ?ts ?td] s d
  have "tables_agree sample_checksum ?ts ?td" by simp
  with s d a show ?thesis
    by (intro exI[of _ ?ts] exI[of _ ?td]) simp
qed

end
